theory Spec2Isabelle
  imports Complex_Main
begin

section \<open>The arena server: data model\<close>

text \<open>
  The embedding follows \<^verbatim>\<open>server.js\<close>. JavaScript numbers that hold coordinates are
  taken as real numbers (\<^verbatim>\<open>Math.sqrt\<close> is \<^term>\<open>sqrt\<close>), scores and ids as naturals,
  clock readings (\<^verbatim>\<open>Date.now()\<close>, milliseconds) as integers.
\<close>

subsection \<open>Configuration constants\<close>

definition MAP_W :: real where "MAP_W = 800"
definition MAP_H :: real where "MAP_H = 600"
definition PLAYER_SPEED :: real where "PLAYER_SPEED = 150"
definition PLAYER_R :: real where "PLAYER_R = 16"
definition COIN_R :: real where "COIN_R = 10"
definition MAX_COINS :: nat where "MAX_COINS = 20"
definition PHYS_DT :: real where "PHYS_DT = 0.05"
definition COIN_SPAWN_INTERVAL :: int where "COIN_SPAWN_INTERVAL = 3000"
definition SIM_LATENCY_MS :: int where "SIM_LATENCY_MS = 200"

subsection \<open>JSON values and JavaScript coercions\<close>

text \<open>
  What \<^verbatim>\<open>JSON.parse\<close> can return, and \<^verbatim>\<open>undefined\<close> for a property that is not
  there. An object is the list of its properties.
\<close>

datatype jsval =
    JUndefined
  | JNull
  | JBool bool
  | JNum real
  | JStr string
  | JArr "jsval list"
  | JObj "(string \<times> jsval) list"

datatype js_error = SyntaxError | TypeError

text \<open>\<^verbatim>\<open>!!v\<close>: every value is truthy but \<^verbatim>\<open>undefined\<close>, \<^verbatim>\<open>null\<close>, \<^verbatim>\<open>false\<close>,
  \<^verbatim>\<open>0\<close> and the empty string.\<close>

fun truthy :: "jsval \<Rightarrow> bool" where
  "truthy JUndefined = False"
| "truthy JNull = False"
| "truthy (JBool b) = b"
| "truthy (JNum n) = (n \<noteq> 0)"
| "truthy (JStr s) = (s \<noteq> [])"
| "truthy (JArr _) = True"
| "truthy (JObj _) = True"

text \<open>\<^verbatim>\<open>msg.name\<close>: a TypeError on \<^verbatim>\<open>null\<close> and \<^verbatim>\<open>undefined\<close>, the property's value
  on an object that has it, \<^verbatim>\<open>undefined\<close> otherwise (none of the names read by the
  server is a property of a primitive or of an array).\<close>

definition prop_value :: "(string \<times> jsval) list \<Rightarrow> string \<Rightarrow> jsval" where
  "prop_value props name = (case map_of props name of None \<Rightarrow> JUndefined | Some v \<Rightarrow> v)"

fun get_prop :: "jsval \<Rightarrow> string \<Rightarrow> js_error + jsval" where
  "get_prop JUndefined _ = Inl TypeError"
| "get_prop JNull _ = Inl TypeError"
| "get_prop (JObj props) name = Inr (prop_value props name)"
| "get_prop _ _ = Inr JUndefined"

subsection \<open>Players, coins and the world\<close>

record input =
  up :: bool
  down :: bool
  left :: bool
  right :: bool
  stamp :: jsval

text \<open>\<^verbatim>\<open>inputSpeedLoss\<close> is not set when a player is created: \<open>None\<close> is
  \<^verbatim>\<open>undefined\<close>.\<close>

record player =
  pid :: nat
  px :: real
  py :: real
  score :: nat
  input :: input
  inputSpeedLoss :: "real option"

record coin =
  cid :: nat
  cx :: real
  cy :: real

section \<open>Physics: movement\<close>

text \<open>The body of the first \<^verbatim>\<open>forEach\<close> of the tick, lines 124 to 143. A player's
  \<^verbatim>\<open>input\<close> is always an object, so \<^verbatim>\<open>p.input || {}\<close> is \<^verbatim>\<open>p.input\<close>.\<close>

definition direction :: "input \<Rightarrow> real \<times> real" where
  "direction inp =
     (let vx = 0; vy = 0;
          vx = (if left inp then vx - 1 else vx);
          vx = (if right inp then vx + 1 else vx);
          vy = (if up inp then vy - 1 else vy);
          vy = (if down inp then vy + 1 else vy)
      in (vx, vy))"

text \<open>\<^verbatim>\<open>p.inputSpeedLoss || 1\<close>, the value of \<^verbatim>\<open>speedFactor\<close> on line 135.\<close>

definition speedFactor :: "player \<Rightarrow> real" where
  "speedFactor p =
     (case inputSpeedLoss p of
        None \<Rightarrow> 1
      | Some v \<Rightarrow> if v = 0 then 1 else v)"

definition clamp_player :: "player \<Rightarrow> player" where
  "clamp_player p =
     p\<lparr>px := max PLAYER_R (min (MAP_W - PLAYER_R) (px p)),
       py := max PLAYER_R (min (MAP_H - PLAYER_R) (py p))\<rparr>"

text \<open>Lines 126 to 139: the velocity from the input and, when it is not zero, the
  displacement; then lines 141 and 142, the clamp.\<close>

definition advance_player :: "player \<Rightarrow> player" where
  "advance_player p =
     (let dt = PHYS_DT;
          (vx, vy) = direction (input p)
      in if vx \<noteq> 0 \<or> vy \<noteq> 0 then
           (let len = sqrt (vx * vx + vy * vy);
                vx = vx / len; vy = vy / len;
                factor = speedFactor p
            in p\<lparr>px := px p + vx * PLAYER_SPEED * dt * factor,
                  py := py p + vy * PLAYER_SPEED * dt * factor,
                  inputSpeedLoss := Some 1\<rparr>)
         else p)"

definition move_player :: "player \<Rightarrow> player" where
  "move_player p = clamp_player (advance_player p)"

definition update_players :: "player list \<Rightarrow> player list" where
  "update_players ps = map move_player ps"

section \<open>Physics: player-player collisions\<close>

text \<open>The body of the pair loop, lines 149 to 175, on the two objects it reads and
  writes.\<close>

definition dominance_ratio :: "player \<Rightarrow> player \<Rightarrow> real" where
  "dominance_ratio p1 p2 =
     (let totalScore = real (score p1) + real (score p2) + 1
      in real (score p2) / totalScore)"

definition collide_pair :: "player \<Rightarrow> player \<Rightarrow> player \<times> player" where
  "collide_pair p1 p2 =
     (let dx = px p2 - px p1;
          dy = py p2 - py p1;
          dist = sqrt (dx * dx + dy * dy);
          minDist = 2 * PLAYER_R
      in if dist < minDist \<and> dist > 0 then
           (let overlap = minDist - dist;
                nx = dx / dist;
                ny = dy / dist;
                ratio = dominance_ratio p1 p2
            in (p1\<lparr>px := px p1 - nx * overlap * (1 - ratio),
                    py := py p1 - ny * overlap * (1 - ratio),
                    inputSpeedLoss := Some 0.8\<rparr>,
                p2\<lparr>px := px p2 + nx * overlap * ratio,
                    py := py p2 + ny * overlap * ratio,
                    inputSpeedLoss := Some 0.8\<rparr>))
         else (p1, p2))"

text \<open>\<^verbatim>\<open>playerArr\<close> holds the player objects; the loop body at \<open>(i, j)\<close> reads
  entries \<open>i\<close> and \<open>j\<close> and writes both back.\<close>

definition pair_step :: "nat \<Rightarrow> nat \<Rightarrow> player list \<Rightarrow> player list" where
  "pair_step i j playerArr =
     (let (p1, p2) = collide_pair (playerArr ! i) (playerArr ! j)
      in playerArr[i := p1, j := p2])"

definition collide_players :: "player list \<Rightarrow> player list" where
  "collide_players playerArr =
     fold (\<lambda>i arr. fold (\<lambda>j arr. pair_step i j arr) [i + 1 ..< length arr] arr)
       [0 ..< length playerArr] playerArr"

text \<open>How far a player object has been displaced between two of its states.\<close>

definition moved :: "player \<Rightarrow> player \<Rightarrow> real" where
  "moved p p' = sqrt ((px p' - px p) * (px p' - px p) + (py p' - py p) * (py p' - py p))"

definition centre_dist :: "player \<Rightarrow> player \<Rightarrow> real" where
  "centre_dist p1 p2 =
     sqrt ((px p2 - px p1) * (px p2 - px p1) + (py p2 - py p1) * (py p2 - py p1))"

section \<open>Physics: player-coin pickup\<close>

text \<open>Lines 180 to 191. Both dictionaries have integer keys, so \<^verbatim>\<open>for ... in\<close> and
  \<^verbatim>\<open>Object.values\<close> visit them in ascending key order: a dictionary is the list of
  its values in that order, each value carrying its own key (\<open>pid\<close>, \<open>cid\<close>).\<close>

definition delete_coin :: "nat \<Rightarrow> coin list \<Rightarrow> coin list" where
  "delete_coin k cs = filter (\<lambda>c. cid c \<noteq> k) cs"

definition lookup_coin :: "nat \<Rightarrow> coin list \<Rightarrow> coin option" where
  "lookup_coin k cs = find (\<lambda>c. cid c = k) cs"

definition touches :: "player \<Rightarrow> coin \<Rightarrow> bool" where
  "touches p c =
     (let dx = px p - cx c; dy = py p - cy c
      in dx * dx + dy * dy \<le> (PLAYER_R + COIN_R) * (PLAYER_R + COIN_R))"

text \<open>One iteration of the inner loop at key \<open>k\<close>: a key deleted before it is
  visited is skipped by \<^verbatim>\<open>for ... in\<close>.\<close>

definition coin_step :: "nat \<Rightarrow> player \<times> coin list \<Rightarrow> player \<times> coin list" where
  "coin_step k st =
     (let (p, cs) = st
      in case lookup_coin k cs of
           None \<Rightarrow> (p, cs)
         | Some c \<Rightarrow>
             if touches p c then (p\<lparr>score := score p + 1\<rparr>, delete_coin k cs)
             else (p, cs))"

text \<open>The inner loop for one player, over the keys the dictionary has when the loop
  starts.\<close>

definition scan_coins :: "player \<Rightarrow> coin list \<Rightarrow> player \<times> coin list" where
  "scan_coins p cs = fold coin_step (map cid cs) (p, cs)"

fun collect_coins :: "player list \<Rightarrow> coin list \<Rightarrow> player list \<times> coin list" where
  "collect_coins [] cs = ([], cs)"
| "collect_coins (p # ps) cs =
     (let (p', cs') = scan_coins p cs;
          (ps', cs'') = collect_coins ps cs'
      in (p' # ps', cs''))"

section \<open>Connections, the inbound queue and the input applier\<close>

datatype ready_state = CONNECTING | OPEN | CLOSING | CLOSED

text \<open>A socket object of the transport: the \<^verbatim>\<open>playerId\<close> the server hangs on it,
  its \<^verbatim>\<open>readyState\<close>, and the payloads handed to its \<^verbatim>\<open>send\<close>, oldest first.
  Sockets are shared objects: queue entries and timers hold a reference (a number), the
  store maps references to objects.\<close>

record socket =
  playerId :: "nat option"
  readyState :: ready_state
  sent :: "string list"

record envelope =
  processAt :: int
  e_ws :: nat
  e_raw :: string

record timer =
  fireAt :: int
  t_ws :: nat
  t_msg :: string

record world =
  nextPlayerId :: nat
  players :: "player list"
  coins :: "coin list"
  nextCoinId :: nat
  inboundQueue :: "envelope list"
  lastSpawn :: int
  sockets :: "nat \<Rightarrow> socket"
  clients :: "nat list"
  timers :: "timer list"

definition queueInbound :: "int \<Rightarrow> nat \<Rightarrow> string \<Rightarrow> envelope list \<Rightarrow> envelope list" where
  "queueInbound now ws raw q =
     q @ [\<lparr>processAt = now + SIM_LATENCY_MS, e_ws = ws, e_raw = raw\<rparr>]"

definition lookup_player :: "nat \<Rightarrow> player list \<Rightarrow> player option" where
  "lookup_player k ps = find (\<lambda>p. pid p = k) ps"

definition delete_player :: "nat \<Rightarrow> player list \<Rightarrow> player list" where
  "delete_player k ps = filter (\<lambda>p. pid p \<noteq> k) ps"

text \<open>Writing a field of the object \<^verbatim>\<open>players[k]\<close>.\<close>

definition modify_player :: "nat \<Rightarrow> (player \<Rightarrow> player) \<Rightarrow> player list \<Rightarrow> player list" where
  "modify_player k f ps = map (\<lambda>p. if pid p = k then f p else p) ps"

definition bind_err :: "'e + 'a \<Rightarrow> ('a \<Rightarrow> 'e + 'b) \<Rightarrow> 'e + 'b" where
  "bind_err r f = (case r of Inl e \<Rightarrow> Inl e | Inr v \<Rightarrow> f v)"

text \<open>\<^verbatim>\<open>handleMsg\<close>, lines 75 to 91: \<open>now\<close> is the reading of \<^verbatim>\<open>Date.now()\<close>; an
  exception is the result \<open>Inl\<close>. \<open>apply_input\<close> is the part from line 80 on, where
  \<^verbatim>\<open>player\<close> is the object \<^verbatim>\<open>players[k]\<close>.\<close>

definition apply_input :: "int \<Rightarrow> nat \<Rightarrow> jsval \<Rightarrow> player list \<Rightarrow> js_error + player list" where
  "apply_input now k msg ps =
     bind_err (get_prop msg ''type'') (\<lambda>ty.
       if ty = JStr ''input'' then
         bind_err (get_prop msg ''up'') (\<lambda>u.
         bind_err (get_prop msg ''down'') (\<lambda>d.
         bind_err (get_prop msg ''left'') (\<lambda>l.
         bind_err (get_prop msg ''right'') (\<lambda>r.
         bind_err (get_prop msg ''stamp'') (\<lambda>st.
           (let inp = \<lparr>up = truthy u, down = truthy d, left = truthy l,
                       right = truthy r,
                       stamp = (if truthy st then st else JNum (of_int now))\<rparr>
            in Inr (modify_player k (\<lambda>p. p\<lparr>input := inp\<rparr>) ps)))))))
       else Inr ps)"

definition handleMsg :: "int \<Rightarrow> socket \<Rightarrow> jsval \<Rightarrow> player list \<Rightarrow> js_error + player list" where
  "handleMsg now ws msg ps =
     (case playerId ws of
        None \<Rightarrow> Inr ps
      | Some k \<Rightarrow>
          if k = 0 then Inr ps
          else (case lookup_player k ps of
                  None \<Rightarrow> Inr ps
                | Some player \<Rightarrow> apply_input now k msg ps))"

text \<open>The \<^verbatim>\<open>try\<close> block of \<^verbatim>\<open>processInboundQueue\<close>: \<open>parse\<close> is \<^verbatim>\<open>JSON.parse\<close>;
  whatever is thrown is caught and dropped.\<close>

definition try_handle ::
  "(string \<Rightarrow> js_error + jsval) \<Rightarrow> (nat \<Rightarrow> socket) \<Rightarrow> int \<Rightarrow> envelope \<Rightarrow> player list \<Rightarrow> player list" where
  "try_handle parse socks now e ps =
     (case bind_err (parse (e_raw e)) (\<lambda>msg. handleMsg now (socks (e_ws e)) msg ps) of
        Inl err \<Rightarrow> ps
      | Inr ps' \<Rightarrow> ps')"

text \<open>\<^verbatim>\<open>inboundQueue.splice(i, 1)\<close>\<close>

definition splice1 :: "nat \<Rightarrow> 'a list \<Rightarrow> 'a list" where
  "splice1 i q = take i q @ drop (Suc i) q"

function drain_loop ::
  "(string \<Rightarrow> js_error + jsval) \<Rightarrow> (nat \<Rightarrow> socket) \<Rightarrow> int \<Rightarrow> nat \<Rightarrow>
     envelope list \<Rightarrow> player list \<Rightarrow> envelope list \<times> player list" where
  "drain_loop parse socks now i q ps =
     (if i < length q then
        (if processAt (q ! i) \<le> now then
           drain_loop parse socks now i (splice1 i q) (try_handle parse socks now (q ! i) ps)
         else drain_loop parse socks now (Suc i) q ps)
      else (q, ps))"
  by pat_completeness auto
termination
  by (relation "measure (\<lambda>(parse, socks, now, i, q, ps). length q - i)")
     (auto simp: splice1_def)

declare drain_loop.simps [simp del]

definition processInboundQueue :: "(string \<Rightarrow> js_error + jsval) \<Rightarrow> int \<Rightarrow> world \<Rightarrow> world" where
  "processInboundQueue parse now w =
     (let (q, ps) = drain_loop parse (sockets w) now 0 (inboundQueue w) (players w)
      in w\<lparr>inboundQueue := q, players := ps\<rparr>)"

text \<open>The two ways \<^verbatim>\<open>handleMsg\<close> returns before it reads the message (lines 76 to
  78), and the envelopes that cannot reach a player: the payload does not parse, or the
  socket has no player in the dictionary.\<close>

definition no_player :: "socket \<Rightarrow> player list \<Rightarrow> bool" where
  "no_player ws ps =
     (case playerId ws of None \<Rightarrow> True | Some k \<Rightarrow> k = 0 \<or> lookup_player k ps = None)"

definition discarded ::
  "(string \<Rightarrow> js_error + jsval) \<Rightarrow> (nat \<Rightarrow> socket) \<Rightarrow> player list \<Rightarrow> envelope \<Rightarrow> bool" where
  "discarded parse socks ps e = (isl (parse (e_raw e)) \<or> no_player (socks (e_ws e)) ps)"

section \<open>Outbound delivery\<close>

text \<open>The two message shapes the server sends; \<^verbatim>\<open>JSON.stringify\<close> is the parameter
  \<open>stringify\<close> of the functions below.\<close>

datatype out_msg =
    Welcome nat real real int
  | Snapshot int "(nat \<times> real \<times> real \<times> nat) list" "(nat \<times> real \<times> real) list"

text \<open>\<^verbatim>\<open>sendWithLatency\<close> hands a callback to \<^verbatim>\<open>setTimeout\<close>: the world keeps the
  pending callbacks with the time from which the host may run them. \<open>timer_fire\<close> is
  the callback, \<open>ws_send\<close> the transport's \<^verbatim>\<open>send\<close>.\<close>

definition sendWithLatency :: "int \<Rightarrow> nat \<Rightarrow> string \<Rightarrow> world \<Rightarrow> world" where
  "sendWithLatency now ws msg w =
     w\<lparr>timers := timers w @ [\<lparr>fireAt = now + SIM_LATENCY_MS, t_ws = ws, t_msg = msg\<rparr>]\<rparr>"

definition ws_send :: "string \<Rightarrow> socket \<Rightarrow> socket" where
  "ws_send msg sock = sock\<lparr>sent := sent sock @ [msg]\<rparr>"

definition timer_fire :: "timer \<Rightarrow> world \<Rightarrow> world" where
  "timer_fire tm w =
     (if readyState (sockets w (t_ws tm)) = OPEN then
        w\<lparr>sockets := (sockets w)(t_ws tm := ws_send (t_msg tm) (sockets w (t_ws tm)))\<rparr>
      else w)"

text \<open>The host's timer phase at clock reading \<open>now\<close>: the callbacks whose delay has
  elapsed run, oldest first, and are forgotten.\<close>

definition run_timers :: "int \<Rightarrow> world \<Rightarrow> world" where
  "run_timers now w =
     fold timer_fire (filter (\<lambda>tm. fireAt tm \<le> now) (timers w))
       (w\<lparr>timers := filter (\<lambda>tm. \<not> fireAt tm \<le> now) (timers w)\<rparr>)"

definition make_snapshot :: "int \<Rightarrow> world \<Rightarrow> out_msg" where
  "make_snapshot now w =
     Snapshot now
       (map (\<lambda>p. (pid p, px p, py p, score p)) (players w))
       (map (\<lambda>c. (cid c, cx c, cy c)) (coins w))"

definition broadcastState :: "(out_msg \<Rightarrow> string) \<Rightarrow> int \<Rightarrow> world \<Rightarrow> world" where
  "broadcastState stringify now w =
     (let snapshot = make_snapshot now w;
          s = stringify snapshot
      in fold (\<lambda>ws w. sendWithLatency now ws s w) (clients w) w)"

section \<open>Coin spawner\<close>

text \<open>\<^verbatim>\<open>coins[id] = c\<close> on a dictionary with integer keys: the entry replaces the one
  with that key, or takes its place in ascending key order.\<close>

fun put_coin :: "coin \<Rightarrow> coin list \<Rightarrow> coin list" where
  "put_coin c [] = [c]"
| "put_coin c (d # ds) =
     (if cid c < cid d then c # d # ds
      else if cid c = cid d then c # ds
      else d # put_coin c ds)"

text \<open>\<open>rx\<close> and \<open>ry\<close> are the two results of \<^verbatim>\<open>Math.random()\<close>.\<close>

definition spawnCoin :: "real \<Rightarrow> real \<Rightarrow> world \<Rightarrow> world" where
  "spawnCoin rx ry w =
     (let id = nextCoinId w;
          w = w\<lparr>nextCoinId := id + 1\<rparr>
      in w\<lparr>coins := put_coin \<lparr>cid = id, cx = rx * (MAP_W - 40) + 20,
                                  cy = ry * (MAP_H - 40) + 20\<rparr> (coins w)\<rparr>)"

text \<open>Lines 194 to 199.\<close>

definition spawn_step :: "int \<Rightarrow> real \<Rightarrow> real \<Rightarrow> world \<Rightarrow> world" where
  "spawn_step now rx ry w =
     (if now - lastSpawn w > COIN_SPAWN_INTERVAL then
        (let w = (if length (coins w) < MAX_COINS then spawnCoin rx ry w else w)
         in w\<lparr>lastSpawn := now\<rparr>)
      else w)"

section \<open>The tick and the connection handlers\<close>

text \<open>The callback of \<^verbatim>\<open>setInterval\<close>, lines 119 to 204. One clock reading \<open>now\<close>
  stands for the readings of \<^verbatim>\<open>Date.now()\<close> taken during the tick.\<close>

definition physics :: "world \<Rightarrow> world" where
  "physics w =
     (let ps = update_players (players w);
          playerArr = collide_players ps;
          (ps, cs) = collect_coins playerArr (coins w)
      in w\<lparr>players := ps, coins := cs\<rparr>)"

definition tick ::
  "(string \<Rightarrow> js_error + jsval) \<Rightarrow> (out_msg \<Rightarrow> string) \<Rightarrow> int \<Rightarrow> real \<Rightarrow> real \<Rightarrow> world \<Rightarrow> world" where
  "tick parse stringify now rx ry w =
     (let w = processInboundQueue parse now w;
          w = physics w;
          w = spawn_step now rx ry w
      in broadcastState stringify now w)"

text \<open>\<^verbatim>\<open>players[id] = p\<close>, as \<open>put_coin\<close> for the coins.\<close>

fun put_player :: "player \<Rightarrow> player list \<Rightarrow> player list" where
  "put_player p [] = [p]"
| "put_player p (q # qs) =
     (if pid p < pid q then p # q # qs
      else if pid p = pid q then p # qs
      else q # put_player p qs)"

text \<open>The \<^verbatim>\<open>connection\<close> handler, lines 93 to 109, for the socket \<open>ws\<close> that the
  transport has accepted, and the \<^verbatim>\<open>message\<close> and \<^verbatim>\<open>close\<close> handlers it installs.\<close>

definition on_connection ::
  "(out_msg \<Rightarrow> string) \<Rightarrow> int \<Rightarrow> real \<Rightarrow> real \<Rightarrow> nat \<Rightarrow> world \<Rightarrow> world" where
  "on_connection stringify now rx ry ws w =
     (let id = nextPlayerId w;
          w = w\<lparr>nextPlayerId := id + 1\<rparr>;
          w = w\<lparr>sockets := (sockets w)(ws := (sockets w ws)\<lparr>playerId := Some id\<rparr>)\<rparr>;
          w = w\<lparr>players := put_player
                 \<lparr>pid = id, px = rx * (MAP_W - 100) + 50, py = ry * (MAP_H - 100) + 50,
                  score = 0,
                  input = \<lparr>up = False, down = False, left = False, right = False,
                           stamp = JUndefined\<rparr>,
                  inputSpeedLoss = None\<rparr> (players w)\<rparr>;
          welcome = Welcome id MAP_W MAP_H now;
          w = sendWithLatency now ws (stringify welcome) w
      in broadcastState stringify now w)"

definition on_message :: "int \<Rightarrow> nat \<Rightarrow> string \<Rightarrow> world \<Rightarrow> world" where
  "on_message now ws raw w = w\<lparr>inboundQueue := queueInbound now ws raw (inboundQueue w)\<rparr>"

definition on_close :: "(out_msg \<Rightarrow> string) \<Rightarrow> int \<Rightarrow> nat \<Rightarrow> world \<Rightarrow> world" where
  "on_close stringify now ws w =
     (let w = (case playerId (sockets w ws) of
                 None \<Rightarrow> w
               | Some k \<Rightarrow> w\<lparr>players := delete_player k (players w)\<rparr>)
      in broadcastState stringify now w)"

section \<open>Notions the statements use\<close>

text \<open>The input intent that an input message with the properties \<open>props\<close> stands for
  at clock reading \<open>now\<close>: four booleans, a missing or falsy direction being false, and
  the message's stamp, or the clock reading when the stamp is missing or falsy.\<close>

definition intent_of :: "int \<Rightarrow> (string \<times> jsval) list \<Rightarrow> input" where
  "intent_of now props =
     \<lparr>up = truthy (prop_value props ''up''), down = truthy (prop_value props ''down''),
      left = truthy (prop_value props ''left''), right = truthy (prop_value props ''right''),
      stamp = (if truthy (prop_value props ''stamp'') then prop_value props ''stamp''
               else JNum (of_int now))\<rparr>"

text \<open>The coin dictionary as the list of its values: ids strictly ascending, hence
  distinct.\<close>

definition coins_ok :: "coin list \<Rightarrow> bool" where
  "coins_ok cs = sorted_wrt (\<lambda>a b. cid a < cid b) cs"

text \<open>The timers a broadcast at \<open>T\<close> creates: one per client, each carrying the
  serialised snapshot of \<open>T\<close>, the players and the coins.\<close>

definition new_timers :: "(out_msg \<Rightarrow> string) \<Rightarrow> int \<Rightarrow> world \<Rightarrow> timer list" where
  "new_timers stringify T w =
     map (\<lambda>ws. \<lparr>fireAt = T + SIM_LATENCY_MS, t_ws = ws,
                t_msg = stringify (Snapshot T
                  (map (\<lambda>p. (pid p, px p, py p, score p)) (players w))
                  (map (\<lambda>c. (cid c, cx c, cy c)) (coins w)))\<rparr>) (clients w)"

text \<open>The world of a tick when it reaches the spawn check: the queue drained, the
  players moved, collided and scanned against the coins.\<close>

definition tick_physics :: "(string \<Rightarrow> js_error + jsval) \<Rightarrow> int \<Rightarrow> world \<Rightarrow> world" where
  "tick_physics parse now w = physics (processInboundQueue parse now w)"

text \<open>The player objects in enumeration order as the coin scan of the tick callback
  finds them, after movement and collisions.\<close>

definition scan_order :: "world \<Rightarrow> player list" where
  "scan_order w = collide_players (update_players (players w))"

section \<open>Concrete scenarios\<close>

text \<open>Inputs on which the theorems below are evaluated: a payload and what
  \<^verbatim>\<open>JSON.parse\<close> returns for it, a serialiser, two sockets and small worlds.\<close>

definition ex_raw :: string where
  \<open>ex_raw = ''{"type":"input","right":true,"stamp":0}''\<close>

definition ex_parse :: "string \<Rightarrow> js_error + jsval" where
  "ex_parse s =
     (if s = ex_raw then
        Inr (JObj [(''type'', JStr ''input''), (''right'', JBool True), (''stamp'', JNum 0)])
      else if s = ''null'' then Inr JNull
      else Inl SyntaxError)"

definition ex_stringify :: "out_msg \<Rightarrow> string" where
  "ex_stringify m =
     (case m of
        Welcome k w h t \<Rightarrow> ''welcome''
      | Snapshot t ps cs \<Rightarrow> (if ps = [] then ''snapshot-empty'' else ''snapshot''))"

definition ex_input :: input where
  "ex_input = \<lparr>up = False, down = False, left = False, right = False, stamp = JUndefined\<rparr>"

definition ex_player :: "nat \<Rightarrow> real \<Rightarrow> real \<Rightarrow> nat \<Rightarrow> player" where
  "ex_player k x y s =
     \<lparr>pid = k, px = x, py = y, score = s, input = ex_input, inputSpeedLoss = None\<rparr>"

definition ex_sockets :: "nat \<Rightarrow> socket" where
  "ex_sockets r =
     (if r = 1 then \<lparr>playerId = Some 1, readyState = OPEN, sent = []\<rparr>
      else if r = 2 then \<lparr>playerId = Some 2, readyState = CLOSED, sent = []\<rparr>
      else \<lparr>playerId = None, readyState = CONNECTING, sent = []\<rparr>)"

definition ex_world :: world where
  "ex_world =
     \<lparr>nextPlayerId = 3, players = [ex_player 1 100 100 0], coins = [],
      nextCoinId = 1, inboundQueue = [], lastSpawn = 0, sockets = ex_sockets,
      clients = [1], timers = []\<rparr>"

definition ex_queue :: "envelope list" where
  "ex_queue =
     [\<lparr>processAt = 100, e_ws = 1, e_raw = ''{not json''\<rparr>,
      \<lparr>processAt = 150, e_ws = 2, e_raw = ex_raw\<rparr>,
      \<lparr>processAt = 160, e_ws = 3, e_raw = ex_raw\<rparr>,
      \<lparr>processAt = 5000, e_ws = 1, e_raw = ex_raw\<rparr>]"

definition ex_wall_world :: world where
  "ex_wall_world =
     \<lparr>nextPlayerId = 3,
      players = [ex_player 1 16 300 0,
                 (ex_player 2 48 300 0)\<lparr>input := ex_input\<lparr>left := True\<rparr>\<rparr>],
      coins = [], nextCoinId = 1, inboundQueue = [], lastSpawn = 0, sockets = ex_sockets,
      clients = [], timers = []\<rparr>"




definition ex_msg :: "(string \<times> jsval) list" where
  "ex_msg = [(''type'', JStr ''input''), (''right'', JNum 1), (''up'', JStr []),
             (''stamp'', JNum 0)]"

definition ex_full_world :: world where
  "ex_full_world =
     ex_world\<lparr>coins := map (\<lambda>k. \<lparr>cid = k, cx = 400, cy = 300\<rparr>) [1 ..< 21], nextCoinId := 21\<rparr>"

definition ex_coin :: "nat \<Rightarrow> real \<Rightarrow> real \<Rightarrow> coin" where
  "ex_coin k x y = \<lparr>cid = k, cx = x, cy = y\<rparr>"

definition ex_coin_world :: world where
  "ex_coin_world =
     ex_world\<lparr>players := [ex_player 1 100 100 0, ex_player 2 140 100 0],
              coins := [ex_coin 1 120 100, ex_coin 2 160 100, ex_coin 3 400 300],
              nextCoinId := 4\<rparr>"

definition ex_net_world :: world where
  "ex_net_world = ex_world\<lparr>clients := [1, 2]\<rparr>"

definition ex_timer :: "nat \<Rightarrow> timer" where
  "ex_timer r = \<lparr>fireAt = 1200, t_ws = r, t_msg = ''snapshot''\<rparr>"

section \<open>The inbound delay queue\<close>

lemma take_splice1: "i < length q \<Longrightarrow> take i (splice1 i q) = take i q"
  by (simp add: splice1_def)

lemma drop_splice1: "i < length q \<Longrightarrow> drop i (splice1 i q) = drop (Suc i) q"
  by (simp add: splice1_def)

lemma drain_loop_filter:
  "drain_loop parse socks now i q ps =
     (take i q @ filter (\<lambda>e. \<not> processAt e \<le> now) (drop i q),
      fold (try_handle parse socks now) (filter (\<lambda>e. processAt e \<le> now) (drop i q)) ps)"
proof (induction parse socks now i q ps rule: drain_loop.induct)
  case (1 parse socks now i q ps)
  show ?case
  proof (cases "i < length q")
    case False
    then show ?thesis by (subst drain_loop.simps) simp
  next
    case inb: True
    then have dr: "drop i q = q ! i # drop (Suc i) q"
      by (simp add: Cons_nth_drop_Suc)
    show ?thesis
    proof (cases "processAt (q ! i) \<le> now")
      case True
      with inb 1(1) show ?thesis
        by (subst drain_loop.simps) (simp add: dr take_splice1 drop_splice1)
    next
      case False
      with inb 1(2) show ?thesis
        by (subst drain_loop.simps) (simp add: dr take_Suc_conv_app_nth)
    qed
  qed
qed

lemma processInboundQueue_filter:
  "processInboundQueue parse now w =
     w\<lparr>inboundQueue := filter (\<lambda>e. \<not> processAt e \<le> now) (inboundQueue w),
       players := fold (try_handle parse (sockets w) now)
                    (filter (\<lambda>e. processAt e \<le> now) (inboundQueue w)) (players w)\<rparr>"
  by (simp add: processInboundQueue_def drain_loop_filter)

text \<open>Claim C5. A drain at clock reading \<open>now\<close> hands to the input applier exactly the
  envelopes whose stamp is at most \<open>now\<close>, in queue order, and keeps the others in the
  queue in their order. A message that arrived at \<open>T\<close> is stamped \<open>T + SIM_LATENCY_MS\<close>:
  a drain before that reading behaves as if the message were not there and keeps its
  envelope at the end of the queue; a drain from that reading on applies it, after
  everything queued before it.\<close>

theorem inbound_drain_delay:
  "processInboundQueue parse now w =
     w\<lparr>inboundQueue := filter (\<lambda>e. \<not> processAt e \<le> now) (inboundQueue w),
       players := fold (try_handle parse (sockets w) now)
                    (filter (\<lambda>e. processAt e \<le> now) (inboundQueue w)) (players w)\<rparr>
   \<and> (now < T + SIM_LATENCY_MS \<longrightarrow>
        processInboundQueue parse now (on_message T ws raw w) =
          (processInboundQueue parse now w)
            \<lparr>inboundQueue := inboundQueue (processInboundQueue parse now w) @
               [\<lparr>processAt = T + SIM_LATENCY_MS, e_ws = ws, e_raw = raw\<rparr>]\<rparr>)
   \<and> (T + SIM_LATENCY_MS \<le> now \<longrightarrow>
        processInboundQueue parse now (on_message T ws raw w) =
          (processInboundQueue parse now w)
            \<lparr>players := try_handle parse (sockets w) now
               \<lparr>processAt = T + SIM_LATENCY_MS, e_ws = ws, e_raw = raw\<rparr>
               (players (processInboundQueue parse now w))\<rparr>)"
  by (simp add: processInboundQueue_filter on_message_def queueInbound_def)

theorem inbound_drain_delay_witness:
  "(1100::int) < 1000 + SIM_LATENCY_MS
   \<and> inboundQueue (processInboundQueue ex_parse 1100 (on_message 1000 1 ex_raw ex_world)) =
       [\<lparr>processAt = 1200, e_ws = 1, e_raw = ex_raw\<rparr>]
   \<and> players (processInboundQueue ex_parse 1100 (on_message 1000 1 ex_raw ex_world)) =
       players ex_world
   \<and> (1000::int) + SIM_LATENCY_MS \<le> 1200
   \<and> inboundQueue (processInboundQueue ex_parse 1200 (on_message 1000 1 ex_raw ex_world)) = []
   \<and> map (right \<circ> input)
        (players (processInboundQueue ex_parse 1200 (on_message 1000 1 ex_raw ex_world))) =
       [True]"
proof -
  have early: "(1100::int) < 1000 + SIM_LATENCY_MS" and due: "(1000::int) + SIM_LATENCY_MS \<le> 1200"
    by (simp_all add: SIM_LATENCY_MS_def)
  have base: "processInboundQueue ex_parse t ex_world = ex_world" for t
    by (simp add: processInboundQueue_def ex_world_def drain_loop.simps)
  from inbound_drain_delay [of ex_parse 1100 ex_world 1000 1 ex_raw] early
  have a: "processInboundQueue ex_parse 1100 (on_message 1000 1 ex_raw ex_world) =
      ex_world\<lparr>inboundQueue := [\<lparr>processAt = 1200, e_ws = 1, e_raw = ex_raw\<rparr>]\<rparr>"
    by (simp add: base SIM_LATENCY_MS_def ex_world_def)
  from inbound_drain_delay [of ex_parse 1200 ex_world 1000 1 ex_raw] due
  have b: "processInboundQueue ex_parse 1200 (on_message 1000 1 ex_raw ex_world) =
      ex_world\<lparr>players := try_handle ex_parse ex_sockets 1200
        \<lparr>processAt = 1200, e_ws = 1, e_raw = ex_raw\<rparr> [ex_player 1 100 100 0]\<rparr>"
    by (simp add: base SIM_LATENCY_MS_def ex_world_def)
  show ?thesis
    unfolding a b
    by (simp add: early due ex_world_def try_handle_def ex_parse_def handleMsg_def
        ex_sockets_def lookup_player_def ex_player_def apply_input_def bind_err_def
        modify_player_def prop_value_def)
qed

subsection \<open>Messages that reach no player\<close>

lemma pid_modify_player:
  "map pid (modify_player k (\<lambda>p. p\<lparr>input := inp\<rparr>) ps) = map pid ps"
  by (simp add: modify_player_def)

lemma bind_err_Inr: "bind_err (Inr v) f = f v"
  by (simp add: bind_err_def)

lemma bind_err_Inl: "bind_err (Inl e) f = Inl e"
  by (simp add: bind_err_def)

lemma apply_input_pids: "apply_input now k msg ps = Inr ps' \<Longrightarrow> map pid ps' = map pid ps"
proof (cases msg)
  case (JObj props)
  assume "apply_input now k msg ps = Inr ps'"
  with JObj show ?thesis
    by (simp add: apply_input_def bind_err_Inr Let_def split: if_splits)
      (auto simp: pid_modify_player)
qed (simp_all add: apply_input_def bind_err_Inr bind_err_Inl)

lemma handleMsg_pids: "handleMsg now ws msg ps = Inr ps' \<Longrightarrow> map pid ps' = map pid ps"
  unfolding handleMsg_def
  by (simp split: option.splits if_splits add: apply_input_pids)

lemma try_handle_pids: "map pid (try_handle parse socks now e ps) = map pid ps"
proof (cases "parse (e_raw e)")
  case (Inl err)
  then show ?thesis by (simp add: try_handle_def bind_err_Inl)
next
  case (Inr msg)
  then show ?thesis
    by (cases "handleMsg now (socks (e_ws e)) msg ps")
      (simp_all add: try_handle_def bind_err_Inr handleMsg_pids)
qed

lemma lookup_player_None: "lookup_player k ps = None \<longleftrightarrow> k \<notin> set (map pid ps)"
  by (auto simp: lookup_player_def find_None_iff)

lemma discarded_pids:
  "map pid ps' = map pid ps \<Longrightarrow> discarded parse socks ps' e = discarded parse socks ps e"
  by (simp add: discarded_def no_player_def lookup_player_None split: option.splits)

lemma handleMsg_no_player: "no_player ws ps \<Longrightarrow> handleMsg now ws msg ps = Inr ps"
  by (auto simp: no_player_def handleMsg_def split: option.splits)

lemma try_handle_discarded:
  "discarded parse socks ps e \<Longrightarrow> try_handle parse socks now e ps = ps"
proof (cases "parse (e_raw e)")
  case (Inl err)
  then show ?thesis by (simp add: try_handle_def bind_err_Inl)
next
  case (Inr msg)
  assume "discarded parse socks ps e"
  with Inr have "no_player (socks (e_ws e)) ps" by (simp add: discarded_def)
  with Inr show ?thesis
    by (simp add: try_handle_def bind_err_Inr handleMsg_no_player)
qed

lemma fold_try_handle_skip:
  "map pid ps = map pid ps0 \<Longrightarrow>
   fold (try_handle parse socks now) (filter r q) ps =
   fold (try_handle parse socks now)
     (filter (\<lambda>e. r e \<and> \<not> discarded parse socks ps0 e) q) ps"
proof (induction q arbitrary: ps)
  case Nil
  show ?case by simp
next
  case (Cons e q)
  let ?h = "try_handle parse socks now"
  let ?keep = "\<lambda>e. r e \<and> \<not> discarded parse socks ps0 e"
  have same: "map pid (?h e ps) = map pid ps0"
    using Cons.prems by (simp only: try_handle_pids)
  have d: "discarded parse socks ps0 e = discarded parse socks ps e"
    using Cons.prems by (rule discarded_pids [symmetric])
  show ?case
  proof (cases "r e")
    case False
    then have "filter r (e # q) = filter r q" "filter ?keep (e # q) = filter ?keep q"
      by simp_all
    then show ?thesis using Cons.IH [OF Cons.prems] by (simp only:)
  next
    case re: True
    show ?thesis
    proof (cases "discarded parse socks ps e")
      case True
      then have "?h e ps = ps" by (rule try_handle_discarded)
      moreover have "filter r (e # q) = e # filter r q" using re by simp
      moreover have "filter ?keep (e # q) = filter ?keep q" using True d by simp
      ultimately show ?thesis using Cons.IH [OF Cons.prems] by (simp only: fold_simps)
    next
      case False
      have "filter r (e # q) = e # filter r q" using re by simp
      moreover have "filter ?keep (e # q) = e # filter ?keep q" using re False d by simp
      ultimately show ?thesis using Cons.IH [OF same] by (simp only: fold_simps)
    qed
  qed
qed

text \<open>Claim C6. An envelope whose payload does not parse, or whose socket has no player
  in the dictionary, changes nothing when it is handled; a drain gives the players that
  handling only the other ready envelopes gives, touches nothing but the queue and the
  players, and removes every ready envelope from the queue. The drain is a total
  function into worlds: whatever \<^verbatim>\<open>JSON.parse\<close> or \<^verbatim>\<open>handleMsg\<close> throws ends in
  \<open>try_handle\<close>.\<close>

theorem discarded_messages_no_effect:
  "(discarded parse socks ps e \<longrightarrow> try_handle parse socks now e ps = ps)
   \<and> processInboundQueue parse now w =
       w\<lparr>inboundQueue := filter (\<lambda>e. \<not> processAt e \<le> now) (inboundQueue w),
         players := fold (try_handle parse (sockets w) now)
            (filter (\<lambda>e. processAt e \<le> now \<and> \<not> discarded parse (sockets w) (players w) e)
               (inboundQueue w))
            (players w)\<rparr>
   \<and> ((\<forall>e \<in> set (inboundQueue w). processAt e \<le> now \<longrightarrow>
          discarded parse (sockets w) (players w) e) \<longrightarrow>
        processInboundQueue parse now w =
          w\<lparr>inboundQueue := filter (\<lambda>e. \<not> processAt e \<le> now) (inboundQueue w)\<rparr>)"
proof (intro conjI impI)
  assume "discarded parse socks ps e"
  then show "try_handle parse socks now e ps = ps" by (rule try_handle_discarded)
next
  show skip: "processInboundQueue parse now w =
       w\<lparr>inboundQueue := filter (\<lambda>e. \<not> processAt e \<le> now) (inboundQueue w),
         players := fold (try_handle parse (sockets w) now)
            (filter (\<lambda>e. processAt e \<le> now \<and> \<not> discarded parse (sockets w) (players w) e)
               (inboundQueue w))
            (players w)\<rparr>"
    using fold_try_handle_skip [of "players w" "players w" parse "sockets w" now
        "\<lambda>e. processAt e \<le> now" "inboundQueue w"]
    by (simp add: processInboundQueue_filter)
  assume all: "\<forall>e \<in> set (inboundQueue w). processAt e \<le> now \<longrightarrow>
          discarded parse (sockets w) (players w) e"
  then have "filter (\<lambda>e. processAt e \<le> now \<and> \<not> discarded parse (sockets w) (players w) e)
               (inboundQueue w) = []"
    by (auto simp: filter_empty_conv)
  with skip show "processInboundQueue parse now w =
          w\<lparr>inboundQueue := filter (\<lambda>e. \<not> processAt e \<le> now) (inboundQueue w)\<rparr>"
    by simp
qed

theorem discarded_messages_no_effect_witness:
  "discarded ex_parse ex_sockets (players ex_world) (ex_queue ! 0)
   \<and> discarded ex_parse ex_sockets (players ex_world) (ex_queue ! 1)
   \<and> discarded ex_parse ex_sockets (players ex_world) (ex_queue ! 2)
   \<and> try_handle ex_parse ex_sockets 1000 (ex_queue ! 0) (players ex_world) = players ex_world
   \<and> processInboundQueue ex_parse 1000 (ex_world\<lparr>inboundQueue := ex_queue\<rparr>) =
       ex_world\<lparr>inboundQueue := [ex_queue ! 3]\<rparr>"
proof -
  have d0: "discarded ex_parse ex_sockets (players ex_world) (ex_queue ! 0)"
    by (simp add: discarded_def ex_queue_def ex_parse_def ex_raw_def)
  have d1: "discarded ex_parse ex_sockets (players ex_world) (ex_queue ! 1)"
    by (simp add: discarded_def ex_queue_def no_player_def ex_sockets_def ex_world_def
        lookup_player_def ex_player_def)
  have d2: "discarded ex_parse ex_sockets (players ex_world) (ex_queue ! 2)"
    by (simp add: discarded_def ex_queue_def no_player_def ex_sockets_def)
  let ?w = "ex_world\<lparr>inboundQueue := ex_queue\<rparr>"
  have sw: "sockets ?w = ex_sockets" "players ?w = players ex_world" "inboundQueue ?w = ex_queue"
    by (simp_all add: ex_world_def)
  have ready: "\<forall>e \<in> set (inboundQueue ?w). processAt e \<le> 1000 \<longrightarrow>
      discarded ex_parse (sockets ?w) (players ?w) e"
    unfolding sw using d0 d1 d2 by (simp add: ex_queue_def)
  have rest: "filter (\<lambda>e. \<not> processAt e \<le> 1000) ex_queue = [ex_queue ! 3]"
    by (simp add: ex_queue_def)
  from discarded_messages_no_effect
    [of ex_parse ex_sockets "players ex_world" "ex_queue ! 0" 1000 ?w] d0 ready
  have "try_handle ex_parse ex_sockets 1000 (ex_queue ! 0) (players ex_world) = players ex_world"
    and "processInboundQueue ex_parse 1000 ?w =
       ?w\<lparr>inboundQueue := filter (\<lambda>e. \<not> processAt e \<le> 1000) (inboundQueue ?w)\<rparr>"
    by blast+
  then show ?thesis
    using d0 d1 d2 by (simp add: sw rest)
qed

section \<open>Player-player collisions\<close>

lemma ratio_bounds: "0 \<le> dominance_ratio p1 p2 \<and> dominance_ratio p1 p2 < 1"
  by (simp add: dominance_ratio_def Let_def)

lemma ratio_zero_iff: "dominance_ratio p1 p2 = 0 \<longleftrightarrow> score p2 = 0"
proof -
  have "real (score p1) + real (score p2) + 1 \<noteq> 0"
    by (metis add_nonneg_pos of_nat_0_le_iff add_nonneg_nonneg zero_less_one less_irrefl)
  then show ?thesis by (simp add: dominance_ratio_def Let_def)
qed

lemma sqrt_scaled_unit:
  fixes dx dy d a :: real
  assumes d: "d = sqrt (dx * dx + dy * dy)" and pos: "0 < d" and a: "0 \<le> a"
  shows "sqrt ((dx / d * a) * (dx / d * a) + (dy / d * a) * (dy / d * a)) = a"
proof -
  have nn: "0 \<le> dx * dx + dy * dy" by simp
  have dd: "d * d = dx * dx + dy * dy"
    unfolding d using nn by (metis abs_of_nonneg real_sqrt_mult_self)
  have "(dx / d * a) * (dx / d * a) + (dy / d * a) * (dy / d * a)
        = (dx * dx + dy * dy) / (d * d) * (a * a)"
    by (simp add: field_simps add_divide_distrib)
  also have "\<dots> = a * a"
  proof -
    have "(dx * dx + dy * dy) / (d * d) = 1" using pos by (simp add: dd [symmetric])
    then show ?thesis by (simp only: mult_1_left)
  qed
  finally show ?thesis using a by (simp add: real_sqrt_mult_self)
qed

lemma collide_pair_overlap:
  assumes d: "d = centre_dist p1 p2" and pos: "0 < d" and lt: "d < 2 * PLAYER_R"
  shows "collide_pair p1 p2 =
     (p1\<lparr>px := px p1 - (px p2 - px p1) / d * (2 * PLAYER_R - d) * (1 - dominance_ratio p1 p2),
         py := py p1 - (py p2 - py p1) / d * (2 * PLAYER_R - d) * (1 - dominance_ratio p1 p2),
         inputSpeedLoss := Some 0.8\<rparr>,
      p2\<lparr>px := px p2 + (px p2 - px p1) / d * (2 * PLAYER_R - d) * dominance_ratio p1 p2,
         py := py p2 + (py p2 - py p1) / d * (2 * PLAYER_R - d) * dominance_ratio p1 p2,
         inputSpeedLoss := Some 0.8\<rparr>)"
  using pos lt unfolding d centre_dist_def collide_pair_def Let_def
  by simp

lemma collide_pair_moved:
  assumes d: "d = centre_dist p1 p2" and pos: "0 < d" and lt: "d < 2 * PLAYER_R"
  shows "moved p1 (fst (collide_pair p1 p2)) = (2 * PLAYER_R - d) * (1 - dominance_ratio p1 p2)"
    and "moved p2 (snd (collide_pair p1 p2)) = (2 * PLAYER_R - d) * dominance_ratio p1 p2"
proof -
  let ?dx = "px p2 - px p1" and ?dy = "py p2 - py p1"
  let ?r = "dominance_ratio p1 p2"
  have d': "d = sqrt (?dx * ?dx + ?dy * ?dy)" using d by (simp add: centre_dist_def)
  have a1: "0 \<le> (2 * PLAYER_R - d) * (1 - ?r)" and a2: "0 \<le> (2 * PLAYER_R - d) * ?r"
    using lt ratio_bounds [of p1 p2] by simp_all
  have m1: "moved p1 (fst (collide_pair p1 p2)) =
      sqrt ((?dx / d * ((2 * PLAYER_R - d) * (1 - ?r))) * (?dx / d * ((2 * PLAYER_R - d) * (1 - ?r)))
          + (?dy / d * ((2 * PLAYER_R - d) * (1 - ?r))) * (?dy / d * ((2 * PLAYER_R - d) * (1 - ?r))))"
    by (simp add: collide_pair_overlap [OF d pos lt] moved_def mult.assoc)
  show "moved p1 (fst (collide_pair p1 p2)) = (2 * PLAYER_R - d) * (1 - ?r)"
    unfolding m1 by (rule sqrt_scaled_unit [OF d' pos a1])
  have m2: "moved p2 (snd (collide_pair p1 p2)) =
      sqrt ((?dx / d * ((2 * PLAYER_R - d) * ?r)) * (?dx / d * ((2 * PLAYER_R - d) * ?r))
          + (?dy / d * ((2 * PLAYER_R - d) * ?r)) * (?dy / d * ((2 * PLAYER_R - d) * ?r)))"
    by (simp add: collide_pair_overlap [OF d pos lt] moved_def mult.assoc)
  show "moved p2 (snd (collide_pair p1 p2)) = (2 * PLAYER_R - d) * ?r"
    unfolding m2 by (rule sqrt_scaled_unit [OF d' pos a2])
qed


lemma sqrt_square: "0 \<le> a \<Longrightarrow> sqrt (a * a) = a"
  by (simp add: real_sqrt_mult_self)

lemma sqrt_64: "sqrt 64 = 8"
  using sqrt_square [of 8] by simp

lemma centre_dist_ex: "centre_dist (ex_player i 100 100 s) (ex_player j 108 100 t) = 8"
  by (simp add: centre_dist_def ex_player_def sqrt_64)




text \<open>Claim C3, amended. In a collision of two players whose centres are at distance
  \<open>d\<close> with \<open>0 < d < 2 * PLAYER_R\<close>, the ratio \<open>p2.score / (p1.score + p2.score + 1)\<close> lies
  in the half-open interval from 0 (included, reached exactly when the second player's
  score is 0) to 1 (excluded); the overlap \<open>2 * PLAYER_R - d\<close> is split into the overlap
  times the ratio and the overlap times \<open>1 - ratio\<close>, one share for each player, and the
  two displacements add up to the overlap.\<close>

theorem dominance_ratio_range:
  assumes d: "d = centre_dist p1 p2" and pos: "0 < d" and lt: "d < 2 * PLAYER_R"
  shows "0 \<le> dominance_ratio p1 p2 \<and> dominance_ratio p1 p2 < 1
    \<and> (dominance_ratio p1 p2 = 0 \<longleftrightarrow> score p2 = 0)
    \<and> {moved p1 (fst (collide_pair p1 p2)), moved p2 (snd (collide_pair p1 p2))} =
        {(2 * PLAYER_R - d) * dominance_ratio p1 p2,
         (2 * PLAYER_R - d) * (1 - dominance_ratio p1 p2)}
    \<and> moved p1 (fst (collide_pair p1 p2)) + moved p2 (snd (collide_pair p1 p2)) =
        2 * PLAYER_R - d"
proof -
  note m = collide_pair_moved [OF d pos lt]
  have total: "moved p1 (fst (collide_pair p1 p2)) + moved p2 (snd (collide_pair p1 p2)) =
        2 * PLAYER_R - d"
    unfolding m by (simp add: algebra_simps)
  have pair: "{moved p1 (fst (collide_pair p1 p2)), moved p2 (snd (collide_pair p1 p2))} =
        {(2 * PLAYER_R - d) * dominance_ratio p1 p2,
         (2 * PLAYER_R - d) * (1 - dominance_ratio p1 p2)}"
    unfolding m by (rule insert_commute)
  from total pair ratio_bounds [of p1 p2] ratio_zero_iff [of p1 p2] show ?thesis
    by (simp only: simp_thms)
qed

theorem dominance_ratio_range_witness:
  "(0::real) < 8 \<and> 8 < 2 * PLAYER_R
   \<and> dominance_ratio (ex_player 1 100 100 0) (ex_player 2 108 100 10) = 10 / 11
   \<and> {moved (ex_player 1 100 100 0)
          (fst (collide_pair (ex_player 1 100 100 0) (ex_player 2 108 100 10))),
        moved (ex_player 2 108 100 10)
          (snd (collide_pair (ex_player 1 100 100 0) (ex_player 2 108 100 10)))} =
       {240 / 11, 24 / 11}"
proof -
  have d: "8 = centre_dist (ex_player 1 100 100 0) (ex_player 2 108 100 10)"
    by (simp add: centre_dist_ex)
  have pos: "(0::real) < 8" and lt: "8 < 2 * PLAYER_R"
    by (simp_all add: PLAYER_R_def)
  have r: "dominance_ratio (ex_player 1 100 100 0) (ex_player 2 108 100 10) = 10 / 11"
    by (simp add: dominance_ratio_def ex_player_def)
  show ?thesis
    using dominance_ratio_range [OF d pos lt] pos lt
    unfolding r by (simp add: PLAYER_R_def)
qed

text \<open>Claim C3 as stated fails for players at (100, 100) with score 10 and at
  (108, 100) with score 0: the ratio is 0, outside the open interval, and the player
  with score 10 is displaced by 24, the one with score 0 not at all.\<close>

theorem higher_score_pushed_further:
  "moved (ex_player 1 100 100 10)
     (fst (collide_pair (ex_player 1 100 100 10) (ex_player 2 108 100 0))) = 24
   \<and> moved (ex_player 2 108 100 0)
     (snd (collide_pair (ex_player 1 100 100 10) (ex_player 2 108 100 0))) = 0
   \<and> \<not> moved (ex_player 1 100 100 10)
         (fst (collide_pair (ex_player 1 100 100 10) (ex_player 2 108 100 0)))
       < moved (ex_player 2 108 100 0)
         (snd (collide_pair (ex_player 1 100 100 10) (ex_player 2 108 100 0)))
   \<and> dominance_ratio (ex_player 1 100 100 10) (ex_player 2 108 100 0) = 0
   \<and> \<not> 0 < dominance_ratio (ex_player 1 100 100 10) (ex_player 2 108 100 0)"
proof -
  have d: "8 = centre_dist (ex_player 1 100 100 10) (ex_player 2 108 100 0)"
    by (simp add: centre_dist_ex)
  have pos: "(0::real) < 8" and lt: "8 < 2 * PLAYER_R"
    by (simp_all add: PLAYER_R_def)
  have r: "dominance_ratio (ex_player 1 100 100 10) (ex_player 2 108 100 0) = 0"
    by (simp add: dominance_ratio_def ex_player_def)
  show ?thesis
    using collide_pair_moved [OF d pos lt]
    unfolding r by (simp add: PLAYER_R_def)
qed

text \<open>Which of the two is displaced further: the first player of the pair whenever it
  has the higher score, the second whenever its score is higher by more than one.\<close>

lemma higher_scorer_displaced_more:
  assumes d: "d = centre_dist p1 p2" and pos: "0 < d" and lt: "d < 2 * PLAYER_R"
  shows "score p2 < score p1 \<Longrightarrow>
           moved p2 (snd (collide_pair p1 p2)) < moved p1 (fst (collide_pair p1 p2))"
    and "score p1 + 1 < score p2 \<Longrightarrow>
           moved p1 (fst (collide_pair p1 p2)) < moved p2 (snd (collide_pair p1 p2))"
proof -
  let ?t = "real (score p1) + real (score p2) + 1"
  have t: "0 < ?t" by (simp add: add_nonneg_pos)
  have r: "dominance_ratio p1 p2 = real (score p2) / ?t"
    by (simp add: dominance_ratio_def Let_def)
  have r1: "1 - dominance_ratio p1 p2 = (real (score p1) + 1) / ?t"
    unfolding r using t by (simp add: field_simps)
  have ov: "0 < 2 * PLAYER_R - d" using lt by simp
  have m1: "moved p1 (fst (collide_pair p1 p2)) = (2 * PLAYER_R - d) * ((real (score p1) + 1) / ?t)"
    using collide_pair_moved(1) [OF d pos lt] by (simp only: r1)
  have m2: "moved p2 (snd (collide_pair p1 p2)) = (2 * PLAYER_R - d) * (real (score p2) / ?t)"
    using collide_pair_moved(2) [OF d pos lt] by (simp only: r)
  {
    assume "score p2 < score p1"
    then have "real (score p2) / ?t < (real (score p1) + 1) / ?t"
      using t by (simp add: divide_strict_right_mono)
    then show "moved p2 (snd (collide_pair p1 p2)) < moved p1 (fst (collide_pair p1 p2))"
      unfolding m1 m2 using ov by (rule mult_strict_left_mono)
  }
  {
    assume "score p1 + 1 < score p2"
    then have "real (score p1) + 1 < real (score p2)" by linarith
    then have "(real (score p1) + 1) / ?t < real (score p2) / ?t"
      using t by (simp add: divide_strict_right_mono)
    then show "moved p1 (fst (collide_pair p1 p2)) < moved p2 (snd (collide_pair p1 p2))"
      unfolding m1 m2 using ov by (rule mult_strict_left_mono)
  }
qed

subsection \<open>A tick can end with a player outside the map\<close>

lemma scan_coins_Nil: "scan_coins p [] = (p, [])"
  by (simp add: scan_coins_def)

lemma collect_coins_Nil: "collect_coins ps [] = (ps, [])"
  by (induction ps) (simp_all add: scan_coins_Nil)

lemma physics_no_coins:
  "coins w = [] \<Longrightarrow> players (physics w) = collide_players (update_players (players w))"
  by (simp add: physics_def collect_coins_Nil)

lemma physics_frame:
  "lastSpawn (physics w) = lastSpawn w" "clients (physics w) = clients w"
  by (simp_all add: physics_def split: prod.splits)

lemma sqrt_2401_4: "sqrt (2401 / 4) = 49 / 2"
  using sqrt_square [of "49 / 2"] by simp

text \<open>Claim C1 at a concrete world. Player 1 stands at the left wall, at (16, 300);
  player 2 is at (48, 300), not touching it, and holds left. Both are inside the map.
  The movement phase takes player 2 to \<open>x = 40.5\<close> and clamps both, inside the map; the
  collision phase then pushes player 1 by the whole overlap 7.5 to \<open>x = 8.5\<close>, and
  nothing clamps after it: the tick ends, and its snapshot is taken, with a player
  outside \<open>[PLAYER_R, MAP_W - PLAYER_R]\<close>.\<close>

theorem tick_pushes_player_off_map:
  "list_all (\<lambda>x. PLAYER_R \<le> x \<and> x \<le> MAP_W - PLAYER_R) (map px (players ex_wall_world))
   \<and> list_all (\<lambda>x. PLAYER_R \<le> x \<and> x \<le> MAP_W - PLAYER_R)
         (map px (update_players (players ex_wall_world)))
   \<and> map px (players (tick ex_parse ex_stringify 1000 0 0 ex_wall_world)) = [17 / 2, 81 / 2]
   \<and> \<not> list_all (\<lambda>x. PLAYER_R \<le> x \<and> x \<le> MAP_W - PLAYER_R)
         (map px (players (tick ex_parse ex_stringify 1000 0 0 ex_wall_world)))"
proof -
  have q: "processInboundQueue ex_parse 1000 ex_wall_world = ex_wall_world"
    by (simp add: processInboundQueue_filter ex_wall_world_def)
  have start: "map px (players ex_wall_world) = [16, 48]"
    by (simp add: ex_wall_world_def ex_player_def)
  have mv: "map px (update_players (players ex_wall_world)) = [16, 81 / 2]"
    by (simp add: update_players_def move_player_def advance_player_def clamp_player_def
        direction_def ex_wall_world_def ex_player_def ex_input_def speedFactor_def
        PLAYER_SPEED_def PHYS_DT_def PLAYER_R_def MAP_W_def MAP_H_def)
  have col: "map px (collide_players (update_players (players ex_wall_world))) = [17 / 2, 81 / 2]"
    by (simp add: collide_players_def pair_step_def collide_pair_def dominance_ratio_def
        update_players_def move_player_def advance_player_def clamp_player_def
        direction_def speedFactor_def PLAYER_SPEED_def PHYS_DT_def MAP_W_def MAP_H_def
        ex_wall_world_def ex_player_def ex_input_def PLAYER_R_def sqrt_2401_4 Let_def)
  have c: "coins ex_wall_world = []" by (simp add: ex_wall_world_def)
  have ph: "map px (players (physics ex_wall_world)) = [17 / 2, 81 / 2]"
    by (simp only: physics_no_coins [OF c] col)
  have sp: "spawn_step 1000 0 0 w = w" if "lastSpawn w = 0" for w
    using that by (simp add: spawn_step_def COIN_SPAWN_INTERVAL_def)
  have bc: "broadcastState ex_stringify 1000 w = w" if "clients w = []" for w
    using that by (simp add: broadcastState_def)
  have ls: "lastSpawn (physics ex_wall_world) = 0" and cl: "clients (physics ex_wall_world) = []"
    by (simp_all add: physics_frame ex_wall_world_def)
  have t: "tick ex_parse ex_stringify 1000 0 0 ex_wall_world = physics ex_wall_world"
    by (simp only: tick_def Let_def q sp [OF ls] bc [OF cl])
  show ?thesis
    unfolding t start mv ph by (simp add: PLAYER_R_def MAP_W_def)
qed

section \<open>Movement and the speed-loss multiplier\<close>

lemma move_player_in_bounds:
  "PLAYER_R \<le> px (move_player p) \<and> px (move_player p) \<le> MAP_W - PLAYER_R
   \<and> PLAYER_R \<le> py (move_player p) \<and> py (move_player p) \<le> MAP_H - PLAYER_R"
  by (simp add: move_player_def clamp_player_def PLAYER_R_def MAP_W_def MAP_H_def)

lemma direction_zero: "direction i = (0, 0) \<longleftrightarrow> left i = right i \<and> up i = down i"
  by (auto simp: direction_def Let_def)








lemma physics_coins_empty: "coins w = [] \<Longrightarrow> coins (physics w) = []"
  by (simp add: physics_def collect_coins_Nil)









section \<open>The input applier\<close>

lemma get_prop_obj: "get_prop (JObj props) name = Inr (prop_value props name)"
  by simp

lemma apply_input_obj:
  "prop_value props ''type'' = JStr ''input'' \<Longrightarrow>
   apply_input now k (JObj props) ps =
     Inr (modify_player k (\<lambda>p. p\<lparr>input := intent_of now props\<rparr>) ps)"
  by (simp only: apply_input_def get_prop_obj bind_err_Inr intent_of_def Let_def if_True
      refl)

lemma lookup_modify_player:
  "lookup_player k ps = Some pl \<Longrightarrow> pid (f pl) = k \<Longrightarrow>
   lookup_player k (modify_player k f ps) = Some (f pl)"
proof (induction ps)
  case Nil
  then show ?case by (simp add: lookup_player_def)
next
  case (Cons q ps)
  show ?case
  proof (cases "pid q = k")
    case True
    with Cons.prems show ?thesis by (simp add: lookup_player_def modify_player_def)
  next
    case False
    with Cons show ?thesis by (simp add: lookup_player_def modify_player_def)
  qed
qed

lemma lookup_player_pid: "lookup_player k ps = Some pl \<Longrightarrow> pid pl = k"
  by (auto simp: lookup_player_def dest: find_Some_iff [THEN iffD1])

text \<open>Claim C10. For a message object whose \<^verbatim>\<open>type\<close> is \<^verbatim>\<open>"input"\<close>, sent over a
  socket whose player is in the dictionary, \<^verbatim>\<open>handleMsg\<close> replaces that player's input
  by the intent of the message: each direction is the truthiness of the field, a boolean;
  the stamp is the field when it is truthy and the clock reading otherwise, so an absent
  stamp and the number 0 both become the clock reading.\<close>

theorem input_intent_stored:
  assumes ws: "playerId ws = Some k" and k: "k \<noteq> 0"
    and pl: "lookup_player k ps = Some pl"
    and ty: "prop_value props ''type'' = JStr ''input''"
  shows "handleMsg now ws (JObj props) ps =
           Inr (modify_player k (\<lambda>p. p\<lparr>input := intent_of now props\<rparr>) ps)
    \<and> lookup_player k (modify_player k (\<lambda>p. p\<lparr>input := intent_of now props\<rparr>) ps) =
        Some (pl\<lparr>input := intent_of now props\<rparr>)
    \<and> up (intent_of now props) = truthy (prop_value props ''up'')
    \<and> down (intent_of now props) = truthy (prop_value props ''down'')
    \<and> left (intent_of now props) = truthy (prop_value props ''left'')
    \<and> right (intent_of now props) = truthy (prop_value props ''right'')
    \<and> (\<not> truthy (prop_value props ''stamp'') \<longrightarrow> stamp (intent_of now props) = JNum (of_int now))
    \<and> (truthy (prop_value props ''stamp'') \<longrightarrow> stamp (intent_of now props) = prop_value props ''stamp'')"
proof -
  have h: "handleMsg now ws (JObj props) ps =
           Inr (modify_player k (\<lambda>p. p\<lparr>input := intent_of now props\<rparr>) ps)"
    using ws k pl by (simp add: handleMsg_def apply_input_obj [OF ty])
  have "pid (pl\<lparr>input := intent_of now props\<rparr>) = k"
    using lookup_player_pid [OF pl] by simp
  from lookup_modify_player [of k ps pl "\<lambda>p. p\<lparr>input := intent_of now props\<rparr>", OF pl this]
  have l: "lookup_player k (modify_player k (\<lambda>p. p\<lparr>input := intent_of now props\<rparr>) ps) =
        Some (pl\<lparr>input := intent_of now props\<rparr>)" .
  show ?thesis
    using h l by (simp add: intent_of_def)
qed

theorem input_intent_stored_witness:
  "playerId (ex_sockets 1) = Some 1 \<and> (1::nat) \<noteq> 0
   \<and> lookup_player 1 (players ex_world) = Some (ex_player 1 100 100 0)
   \<and> prop_value ex_msg ''type'' = JStr ''input''
   \<and> handleMsg 5000 (ex_sockets 1) (JObj ex_msg) (players ex_world) =
       Inr [(ex_player 1 100 100 0)\<lparr>input :=
              \<lparr>up = False, down = False, left = False, right = True, stamp = JNum 5000\<rparr>\<rparr>]"
proof -
  have ws: "playerId (ex_sockets 1) = Some 1" by (simp add: ex_sockets_def)
  have k: "(1::nat) \<noteq> 0" by simp
  have pl: "lookup_player 1 (players ex_world) = Some (ex_player 1 100 100 0)"
    by (simp add: lookup_player_def ex_world_def ex_player_def)
  have ty: "prop_value ex_msg ''type'' = JStr ''input''"
    by (simp add: prop_value_def ex_msg_def)
  have i: "intent_of 5000 ex_msg =
      \<lparr>up = False, down = False, left = False, right = True, stamp = JNum 5000\<rparr>"
    by (simp add: intent_of_def prop_value_def ex_msg_def)
  have m: "modify_player 1 (\<lambda>p. p\<lparr>input := inp\<rparr>) (players ex_world) =
      [(ex_player 1 100 100 0)\<lparr>input := inp\<rparr>]" for inp
    by (simp add: modify_player_def ex_world_def ex_player_def)
  from input_intent_stored [OF ws k pl ty, of 5000]
  have "handleMsg 5000 (ex_sockets 1) (JObj ex_msg) (players ex_world) =
      Inr (modify_player 1 (\<lambda>p. p\<lparr>input := intent_of 5000 ex_msg\<rparr>) (players ex_world))"
    by blast
  then show ?thesis
    using ws pl ty by (simp only: i m k simp_thms)
qed

section \<open>The coin spawner\<close>

lemma length_put_coin: "length (put_coin c cs) \<le> Suc (length cs)"
  by (induction cs) simp_all

lemma put_coin_fresh:
  "\<forall>d \<in> set cs. cid d < cid c \<Longrightarrow> put_coin c cs = cs @ [c]"
  by (induction cs) simp_all

lemma length_scan_coins: "length (snd (fold coin_step ks (p, cs))) \<le> length cs"
proof (induction ks arbitrary: p cs)
  case Nil
  show ?case by simp
next
  case (Cons k ks)
  obtain p' cs' where st: "coin_step k (p, cs) = (p', cs')" by (cases "coin_step k (p, cs)")
  then have "length cs' \<le> length cs"
    by (auto simp: coin_step_def delete_coin_def split: option.splits if_splits)
  with Cons [of p' cs'] st show ?case by simp
qed

lemma length_collect_coins: "length (snd (collect_coins ps cs)) \<le> length cs"
proof (induction ps arbitrary: cs)
  case Nil
  show ?case by simp
next
  case (Cons p ps)
  obtain p' cs' where sc: "scan_coins p cs = (p', cs')" by (cases "scan_coins p cs")
  then have "length cs' \<le> length cs"
    using length_scan_coins [of "map cid cs" p cs] by (simp add: scan_coins_def)
  with Cons [of cs'] sc show ?case by (auto split: prod.splits)
qed

lemma fold_sendWithLatency:
  "fold (\<lambda>ws w. sendWithLatency now ws s w) cl w =
     w\<lparr>timers := timers w @ map (\<lambda>ws. \<lparr>fireAt = now + SIM_LATENCY_MS, t_ws = ws, t_msg = s\<rparr>) cl\<rparr>"
  by (induction cl arbitrary: w) (simp_all add: sendWithLatency_def)

lemma broadcastState_timers:
  "broadcastState stringify now w =
     w\<lparr>timers := timers w @
        map (\<lambda>ws. \<lparr>fireAt = now + SIM_LATENCY_MS, t_ws = ws,
                   t_msg = stringify (make_snapshot now w)\<rparr>) (clients w)\<rparr>"
  by (simp add: broadcastState_def Let_def fold_sendWithLatency)

lemma spawn_step_coins:
  "coins (spawn_step now rx ry w) =
     (if now - lastSpawn w > COIN_SPAWN_INTERVAL \<and> length (coins w) < MAX_COINS then
        put_coin \<lparr>cid = nextCoinId w, cx = rx * (MAP_W - 40) + 20, cy = ry * (MAP_H - 40) + 20\<rparr>
          (coins w)
      else coins w)"
  by (simp add: spawn_step_def spawnCoin_def Let_def)

lemma spawn_step_cap: "length (coins w) \<le> MAX_COINS \<Longrightarrow> length (coins (spawn_step now rx ry w)) \<le> MAX_COINS"
  unfolding spawn_step_coins
  using length_put_coin [of "\<lparr>cid = nextCoinId w, cx = rx * (MAP_W - 40) + 20, cy = ry * (MAP_H - 40) + 20\<rparr>" "coins w"]
  by auto

lemma physics_coins_le: "length (coins (physics w)) \<le> length (coins w)"
  using length_collect_coins [of "collide_players (update_players (players w))" "coins w"]
  by (auto simp: physics_def split: prod.splits)

lemma tick_coins:
  "coins (tick parse stringify now rx ry w) =
     coins (spawn_step now rx ry (physics (processInboundQueue parse now w)))"
  by (simp add: tick_def Let_def broadcastState_timers)

lemma tick_unfold:
  "tick parse stringify now rx ry w =
     broadcastState stringify now (spawn_step now rx ry (tick_physics parse now w))"
  by (simp add: tick_def Let_def tick_physics_def)

lemma broadcastState_frame:
  "coins (broadcastState stringify now w) = coins w"
  "players (broadcastState stringify now w) = players w"
  "lastSpawn (broadcastState stringify now w) = lastSpawn w"
  "nextCoinId (broadcastState stringify now w) = nextCoinId w"
  by (simp_all add: broadcastState_timers)

lemma tick_physics_frame:
  "lastSpawn (tick_physics parse now w) = lastSpawn w"
  "nextCoinId (tick_physics parse now w) = nextCoinId w"
  by (simp_all add: tick_physics_def physics_def processInboundQueue_filter split: prod.splits)

lemma spawn_step_frame:
  "lastSpawn (spawn_step now rx ry w) =
     (if now - lastSpawn w > COIN_SPAWN_INTERVAL then now else lastSpawn w)"
  "nextCoinId (spawn_step now rx ry w) =
     (if now - lastSpawn w > COIN_SPAWN_INTERVAL \<and> length (coins w) < MAX_COINS
      then nextCoinId w + 1 else nextCoinId w)"
  "players (spawn_step now rx ry w) = players w"
  by (simp_all add: spawn_step_def spawnCoin_def Let_def)

lemma tick_physics_coins_le: "length (coins (tick_physics parse now w)) \<le> length (coins w)"
  using physics_coins_le [of "processInboundQueue parse now w"]
  by (simp add: tick_physics_def processInboundQueue_filter)

text \<open>Claim C7. In a tick, after the coin scan, a coin is added exactly when more than
  \<open>COIN_SPAWN_INTERVAL\<close> has passed since \<open>lastSpawn\<close> and fewer than \<open>MAX_COINS\<close> coins
  are alive, and then one coin, under the next coin id, which advances by one;
  \<open>lastSpawn\<close> becomes the clock reading whenever the interval has passed, whether or not a
  coin was added. The tick adds at most one coin, and a count of at most \<open>MAX_COINS\<close>
  stays so through the tick. The same holds of the spawn check taken alone
  (\<open>spawn_step\<close>), where the new coin comes last when its id is above the ids alive.\<close>

theorem spawner_respects_cap:
  "coins (tick parse stringify now rx ry w) =
     (if now - lastSpawn w > COIN_SPAWN_INTERVAL \<and>
         length (coins (tick_physics parse now w)) < MAX_COINS then
        put_coin \<lparr>cid = nextCoinId w, cx = rx * (MAP_W - 40) + 20, cy = ry * (MAP_H - 40) + 20\<rparr>
          (coins (tick_physics parse now w))
      else coins (tick_physics parse now w))
   \<and> lastSpawn (tick parse stringify now rx ry w) =
       (if now - lastSpawn w > COIN_SPAWN_INTERVAL then now else lastSpawn w)
   \<and> nextCoinId (tick parse stringify now rx ry w) =
       (if now - lastSpawn w > COIN_SPAWN_INTERVAL \<and>
           length (coins (tick_physics parse now w)) < MAX_COINS
        then nextCoinId w + 1 else nextCoinId w)
   \<and> length (coins (tick parse stringify now rx ry w)) \<le> length (coins w) + 1
   \<and> (length (coins w) \<le> MAX_COINS \<longrightarrow>
        length (coins (tick parse stringify now rx ry w)) \<le> MAX_COINS)
   \<and> coins (spawn_step now rx ry w) =
       (if now - lastSpawn w > COIN_SPAWN_INTERVAL \<and> length (coins w) < MAX_COINS then
          put_coin \<lparr>cid = nextCoinId w, cx = rx * (MAP_W - 40) + 20, cy = ry * (MAP_H - 40) + 20\<rparr>
            (coins w)
        else coins w)
   \<and> lastSpawn (spawn_step now rx ry w) =
       (if now - lastSpawn w > COIN_SPAWN_INTERVAL then now else lastSpawn w)
   \<and> length (coins (spawn_step now rx ry w)) \<le> length (coins w) + 1
   \<and> (length (coins w) \<le> MAX_COINS \<longrightarrow>
        length (coins (spawn_step now rx ry w)) \<le> MAX_COINS)
   \<and> ((\<forall>d \<in> set (coins w). cid d < nextCoinId w) \<and>
       now - lastSpawn w > COIN_SPAWN_INTERVAL \<and> length (coins w) < MAX_COINS \<longrightarrow>
        coins (spawn_step now rx ry w) =
          coins w @ [\<lparr>cid = nextCoinId w, cx = rx * (MAP_W - 40) + 20,
                      cy = ry * (MAP_H - 40) + 20\<rparr>])"
proof (intro conjI impI)
  let ?w1 = "tick_physics parse now w"
  let ?c = "\<lparr>cid = nextCoinId w, cx = rx * (MAP_W - 40) + 20, cy = ry * (MAP_H - 40) + 20\<rparr>"
  show tc: "coins (tick parse stringify now rx ry w) =
     (if now - lastSpawn w > COIN_SPAWN_INTERVAL \<and> length (coins ?w1) < MAX_COINS then
        put_coin ?c (coins ?w1)
      else coins ?w1)"
    by (simp add: tick_unfold broadcastState_frame spawn_step_coins tick_physics_frame)
  show "lastSpawn (tick parse stringify now rx ry w) =
       (if now - lastSpawn w > COIN_SPAWN_INTERVAL then now else lastSpawn w)"
    by (simp add: tick_unfold broadcastState_frame spawn_step_frame tick_physics_frame)
  show "nextCoinId (tick parse stringify now rx ry w) =
       (if now - lastSpawn w > COIN_SPAWN_INTERVAL \<and> length (coins ?w1) < MAX_COINS
        then nextCoinId w + 1 else nextCoinId w)"
    by (simp add: tick_unfold broadcastState_frame spawn_step_frame tick_physics_frame)
  have "length (coins (tick parse stringify now rx ry w)) \<le> length (coins ?w1) + 1"
    unfolding tc using length_put_coin [of ?c "coins ?w1"] by auto
  then show "length (coins (tick parse stringify now rx ry w)) \<le> length (coins w) + 1"
    using tick_physics_coins_le [of parse now w] by linarith
  show sc: "coins (spawn_step now rx ry w) =
       (if now - lastSpawn w > COIN_SPAWN_INTERVAL \<and> length (coins w) < MAX_COINS then
          put_coin ?c (coins w)
        else coins w)"
    by (rule spawn_step_coins)
  show "lastSpawn (spawn_step now rx ry w) =
       (if now - lastSpawn w > COIN_SPAWN_INTERVAL then now else lastSpawn w)"
    by (rule spawn_step_frame)
  show "length (coins (spawn_step now rx ry w)) \<le> length (coins w) + 1"
    unfolding sc using length_put_coin [of ?c "coins w"] by auto
next
  assume cap: "length (coins w) \<le> MAX_COINS"
  with tick_physics_coins_le [of parse now w]
  have "length (coins (tick_physics parse now w)) \<le> MAX_COINS" by linarith
  then have "length (coins (spawn_step now rx ry (tick_physics parse now w))) \<le> MAX_COINS"
    by (rule spawn_step_cap)
  then show "length (coins (tick parse stringify now rx ry w)) \<le> MAX_COINS"
    by (simp add: tick_unfold broadcastState_frame)
next
  assume cap: "length (coins w) \<le> MAX_COINS"
  show "length (coins (spawn_step now rx ry w)) \<le> MAX_COINS"
    by (rule spawn_step_cap [OF cap])
next
  assume "(\<forall>d \<in> set (coins w). cid d < nextCoinId w) \<and>
       now - lastSpawn w > COIN_SPAWN_INTERVAL \<and> length (coins w) < MAX_COINS"
  then show "coins (spawn_step now rx ry w) =
          coins w @ [\<lparr>cid = nextCoinId w, cx = rx * (MAP_W - 40) + 20,
                      cy = ry * (MAP_H - 40) + 20\<rparr>]"
    by (simp add: spawn_step_coins put_coin_fresh)
qed

section \<open>Player-coin pickup\<close>

lemma touches_score: "touches (p\<lparr>score := n\<rparr>) c = touches p c"
  by (simp add: touches_def)

lemma lookup_coin_mid:
  "cid x \<notin> cid ` set kept \<Longrightarrow> lookup_coin (cid x) (kept @ x # xs) = Some x"
  by (induction kept) (auto simp: lookup_coin_def)

lemma delete_coin_mid:
  "cid x \<notin> cid ` set kept \<Longrightarrow> cid x \<notin> cid ` set xs \<Longrightarrow>
   delete_coin (cid x) (kept @ x # xs) = kept @ xs"
proof -
  assume "cid x \<notin> cid ` set kept" and "cid x \<notin> cid ` set xs"
  then have "\<forall>c \<in> set kept. cid c \<noteq> cid x" "\<forall>c \<in> set xs. cid c \<noteq> cid x"
    by (metis imageI)+
  then have "filter (\<lambda>c. cid c \<noteq> cid x) kept = kept" "filter (\<lambda>c. cid c \<noteq> cid x) xs = xs"
    by (simp_all add: filter_True)
  then show ?thesis by (simp add: delete_coin_def)
qed

lemma fold_coin_step:
  "distinct (map cid (kept @ xs)) \<Longrightarrow>
   fold coin_step (map cid xs) (p, kept @ xs) =
     (p\<lparr>score := score p + length (filter (touches p) xs)\<rparr>,
      kept @ filter (\<lambda>c. \<not> touches p c) xs)"
proof (induction xs arbitrary: p kept)
  case Nil
  show ?case by simp
next
  case (Cons x xs)
  from Cons.prems have nk: "cid x \<notin> cid ` set kept" and nx: "cid x \<notin> cid ` set xs"
    and d1: "distinct (map cid (kept @ xs))" and d2: "distinct (map cid ((kept @ [x]) @ xs))"
    by auto
  show ?case
  proof (cases "touches p x")
    case True
    then have st: "coin_step (cid x) (p, kept @ x # xs) = (p\<lparr>score := score p + 1\<rparr>, kept @ xs)"
      by (simp add: coin_step_def lookup_coin_mid [OF nk] delete_coin_mid [OF nk nx])
    show ?thesis
      using True Cons.IH [OF d1, of "p\<lparr>score := score p + 1\<rparr>"]
      by (simp add: st touches_score)
  next
    case False
    then have st: "coin_step (cid x) (p, kept @ x # xs) = (p, (kept @ [x]) @ xs)"
      by (simp add: coin_step_def lookup_coin_mid [OF nk])
    show ?thesis
      using False Cons.IH [OF d2, of p] by (simp add: st)
  qed
qed

lemma scan_coins_filter:
  "distinct (map cid cs) \<Longrightarrow>
   scan_coins p cs =
     (p\<lparr>score := score p + length (filter (touches p) cs)\<rparr>,
      filter (\<lambda>c. \<not> touches p c) cs)"
  using fold_coin_step [of "[]" cs p] by (simp add: scan_coins_def)

lemma collect_coins_Cons:
  "collect_coins (p # ps) cs =
     (fst (scan_coins p cs) # fst (collect_coins ps (snd (scan_coins p cs))),
      snd (collect_coins ps (snd (scan_coins p cs))))"
  by (simp add: case_prod_unfold Let_def)

lemma collect_coins_rest:
  "distinct (map cid cs) \<Longrightarrow>
   snd (collect_coins ps cs) = filter (\<lambda>c. \<not> list_ex (\<lambda>p. touches p c) ps) cs"
proof (induction ps arbitrary: cs)
  case Nil
  show ?case by simp
next
  case (Cons p ps)
  have d: "distinct (map cid (filter (\<lambda>c. \<not> touches p c) cs))"
    using Cons.prems by (rule distinct_map_filter)
  have "filter (\<lambda>c. \<not> list_ex (\<lambda>p. touches p c) ps) (filter (\<lambda>c. \<not> touches p c) cs) =
        filter (\<lambda>c. \<not> list_ex (\<lambda>q. touches q c) (p # ps)) cs"
    by simp
  with Cons.IH [OF d] show ?case
    by (simp only: collect_coins_Cons scan_coins_filter [OF Cons.prems] fst_conv snd_conv)
qed

lemma length_collect_players: "length (fst (collect_coins ps cs)) = length ps"
proof (induction ps arbitrary: cs)
  case Nil
  show ?case by simp
next
  case (Cons p ps)
  show ?case by (simp only: collect_coins_Cons fst_conv length_Cons Cons)
qed

lemma collect_coins_nth:
  "distinct (map cid cs) \<Longrightarrow> i < length ps \<Longrightarrow>
   fst (collect_coins ps cs) ! i =
     (ps ! i)\<lparr>score := score (ps ! i) +
        length (filter (\<lambda>c. touches (ps ! i) c \<and> \<not> list_ex (\<lambda>q. touches q c) (take i ps)) cs)\<rparr>"
proof (induction ps arbitrary: cs i)
  case Nil
  then show ?case by simp
next
  case (Cons p ps)
  have d: "distinct (map cid (filter (\<lambda>c. \<not> touches p c) cs))"
    using Cons.prems(1) by (rule distinct_map_filter)
  note unfold = collect_coins_Cons scan_coins_filter [OF Cons.prems(1)] fst_conv snd_conv
  show ?case
  proof (cases i)
    case 0
    show ?thesis unfolding 0 unfold by simp
  next
    case (Suc j)
    with Cons.prems have j: "j < length ps" by simp
    have eq: "filter (\<lambda>c. touches (ps ! j) c \<and> \<not> list_ex (\<lambda>q. touches q c) (take j ps))
                (filter (\<lambda>c. \<not> touches p c) cs) =
              filter (\<lambda>c. touches (ps ! j) c \<and> \<not> list_ex (\<lambda>q. touches q c) (p # take j ps)) cs"
      by (simp, rule filter_cong, auto)
    show ?thesis
      unfolding Suc unfold using Cons.IH [OF d j] eq by simp
  qed
qed

lemma collect_coins_total:
  "distinct (map cid cs) \<Longrightarrow>
   sum_list (map score (fst (collect_coins ps cs))) + length (snd (collect_coins ps cs)) =
   sum_list (map score ps) + length cs"
proof (induction ps arbitrary: cs)
  case Nil
  show ?case by simp
next
  case (Cons p ps)
  have d: "distinct (map cid (filter (\<lambda>c. \<not> touches p c) cs))"
    using Cons.prems by (rule distinct_map_filter)
  have "length (filter (touches p) cs) + length (filter (\<lambda>c. \<not> touches p c) cs) = length cs"
    by (rule sum_length_filter_compl)
  with Cons.IH [OF d] show ?case
    unfolding collect_coins_Cons scan_coins_filter [OF Cons.prems] fst_conv snd_conv
    by simp
qed

lemma physics_scan:
  "players (physics w) = fst (collect_coins (scan_order w) (coins w))"
  "coins (physics w) = snd (collect_coins (scan_order w) (coins w))"
  by (simp_all add: physics_def scan_order_def case_prod_unfold Let_def)

lemma tick_players:
  "players (tick parse stringify now rx ry w) = players (tick_physics parse now w)"
  by (simp add: tick_unfold broadcastState_frame spawn_step_frame)

lemma tick_coins_spawn:
  "coins (tick parse stringify now rx ry w) =
     coins (spawn_step now rx ry (tick_physics parse now w))"
  by (simp add: tick_unfold broadcastState_frame)

lemma sqrt_1600: "sqrt 1600 = 40"
  using sqrt_square [of 40] by simp

lemma drain_empty: "inboundQueue w = [] \<Longrightarrow> processInboundQueue parse now w = w"
  by (simp add: processInboundQueue_filter)

lemma scan_order_single:
  "scan_order (w\<lparr>players := [p]\<rparr>) = [move_player p]"
  by (simp add: scan_order_def update_players_def collide_players_def)

lemma ex_world_scan: "scan_order ex_world = [ex_player 1 100 100 0]"
  by (simp add: scan_order_def update_players_def collide_players_def ex_world_def
      move_player_def advance_player_def clamp_player_def direction_def ex_player_def
      ex_input_def PLAYER_R_def MAP_W_def MAP_H_def)

lemma ex_full_world_scan: "scan_order ex_full_world = [ex_player 1 100 100 0]"
  using ex_world_scan by (simp add: scan_order_def ex_full_world_def)

lemma ex_full_world_physics: "coins (physics ex_full_world) = coins ex_full_world"
proof -
  have d: "distinct (map cid (coins ex_full_world))"
    by (simp add: ex_full_world_def o_def)
  have "\<forall>c \<in> set (coins ex_full_world). \<not> list_ex (\<lambda>p. touches p c) (scan_order ex_full_world)"
    unfolding ex_full_world_scan
    by (auto simp: ex_full_world_def touches_def ex_player_def PLAYER_R_def COIN_R_def)
  then show ?thesis
    unfolding physics_scan collect_coins_rest [OF d] by (simp add: filter_True)
qed

theorem spawner_respects_cap_witness:
  "length (coins ex_world) \<le> MAX_COINS
   \<and> list_all (\<lambda>d. cid d < nextCoinId ex_world) (coins ex_world)
   \<and> 5000 - lastSpawn ex_world > COIN_SPAWN_INTERVAL
   \<and> coins (spawn_step 5000 (1 / 2) (1 / 2) ex_world) = [\<lparr>cid = 1, cx = 400, cy = 300\<rparr>]
   \<and> coins (tick ex_parse ex_stringify 5000 (1 / 2) (1 / 2) ex_world) =
       [\<lparr>cid = 1, cx = 400, cy = 300\<rparr>]
   \<and> lastSpawn (tick ex_parse ex_stringify 5000 (1 / 2) (1 / 2) ex_world) = 5000
   \<and> nextCoinId (tick ex_parse ex_stringify 5000 (1 / 2) (1 / 2) ex_world) = 2
   \<and> coins (tick ex_parse ex_stringify 2000 (1 / 2) (1 / 2) ex_world) = []
   \<and> lastSpawn (tick ex_parse ex_stringify 2000 (1 / 2) (1 / 2) ex_world) = 0
   \<and> length (coins ex_full_world) = MAX_COINS
   \<and> coins (spawn_step 5000 (1 / 2) (1 / 2) ex_full_world) = coins ex_full_world
   \<and> lastSpawn (spawn_step 5000 (1 / 2) (1 / 2) ex_full_world) = 5000
   \<and> coins (tick ex_parse ex_stringify 5000 (1 / 2) (1 / 2) ex_full_world) = coins ex_full_world
   \<and> lastSpawn (tick ex_parse ex_stringify 5000 (1 / 2) (1 / 2) ex_full_world) = 5000
   \<and> nextCoinId (tick ex_parse ex_stringify 5000 (1 / 2) (1 / 2) ex_full_world) = 21"
proof -
  have e: "coins ex_world = []" "nextCoinId ex_world = 1" "lastSpawn ex_world = 0"
      "inboundQueue ex_world = []"
    by (simp_all add: ex_world_def)
  have f: "length (coins ex_full_world) = MAX_COINS" "lastSpawn ex_full_world = 0"
      "nextCoinId ex_full_world = 21" "inboundQueue ex_full_world = []"
    by (simp_all add: ex_full_world_def ex_world_def MAX_COINS_def)
  have el: "5000 - (0::int) > COIN_SPAWN_INTERVAL" "\<not> 2000 - (0::int) > COIN_SPAWN_INTERVAL"
    by (simp_all add: COIN_SPAWN_INTERVAL_def)
  have p1: "coins (tick_physics ex_parse t ex_world) = []" for t
    by (simp add: tick_physics_def drain_empty e physics_coins_empty)
  have p2: "coins (tick_physics ex_parse t ex_full_world) = coins ex_full_world" for t
    by (simp add: tick_physics_def drain_empty f ex_full_world_physics)
  have h1: "length (coins ex_world) \<le> MAX_COINS" by (simp add: e)
  have h2: "(\<forall>d \<in> set (coins ex_world). cid d < nextCoinId ex_world) \<and>
       5000 - lastSpawn ex_world > COIN_SPAWN_INTERVAL \<and> length (coins ex_world) < MAX_COINS"
    using el by (simp add: e MAX_COINS_def)
  have h3: "length (coins ex_full_world) \<le> MAX_COINS" by (simp add: f)
  note a = spawner_respects_cap [of ex_parse ex_stringify 5000 "1 / 2" "1 / 2" ex_world]
  note a' = spawner_respects_cap [of ex_parse ex_stringify 2000 "1 / 2" "1 / 2" ex_world]
  note b = spawner_respects_cap [of ex_parse ex_stringify 5000 "1 / 2" "1 / 2" ex_full_world]
  have a1: "coins (spawn_step 5000 (1 / 2) (1 / 2) ex_world) = [\<lparr>cid = 1, cx = 400, cy = 300\<rparr>]"
    using a h2 by (simp add: e MAP_W_def MAP_H_def)
  have a2: "coins (tick ex_parse ex_stringify 5000 (1 / 2) (1 / 2) ex_world) =
       [\<lparr>cid = 1, cx = 400, cy = 300\<rparr>]"
    and a3: "lastSpawn (tick ex_parse ex_stringify 5000 (1 / 2) (1 / 2) ex_world) = 5000"
    and a4: "nextCoinId (tick ex_parse ex_stringify 5000 (1 / 2) (1 / 2) ex_world) = 2"
    using a el by (simp_all add: e p1 MAP_W_def MAP_H_def MAX_COINS_def)
  have a5: "coins (tick ex_parse ex_stringify 2000 (1 / 2) (1 / 2) ex_world) = []"
    and a6: "lastSpawn (tick ex_parse ex_stringify 2000 (1 / 2) (1 / 2) ex_world) = 0"
    using a' el by (simp_all add: e p1)
  have b1: "coins (spawn_step 5000 (1 / 2) (1 / 2) ex_full_world) = coins ex_full_world"
    and b2: "lastSpawn (spawn_step 5000 (1 / 2) (1 / 2) ex_full_world) = 5000"
    and b3: "coins (tick ex_parse ex_stringify 5000 (1 / 2) (1 / 2) ex_full_world) =
       coins ex_full_world"
    and b4: "lastSpawn (tick ex_parse ex_stringify 5000 (1 / 2) (1 / 2) ex_full_world) = 5000"
    and b5: "nextCoinId (tick ex_parse ex_stringify 5000 (1 / 2) (1 / 2) ex_full_world) = 21"
    using b h3 el by (simp_all add: f p2)
  show ?thesis
    unfolding a1 a2 a3 a4 a5 a6 b1 b2 b3 b4 b5 using el by (simp add: e f)
qed

text \<open>Claim C8. With distinct coin ids, the pickup scan of the tick removes from the
  world's coins exactly those that some player touches and keeps the others in order;
  player \<open>i\<close> in scan order gains one point for each coin it touches that no player before
  it touches, and nothing else of the player changes; the points gained in total are the
  coins removed. This is stated of the physics phase of any world and of the whole tick,
  whose coins are those the scan keeps, passed through the spawn check.\<close>

theorem coin_claimed_once:
  assumes "distinct (map cid (coins w))"
  shows "coins (physics w) =
           filter (\<lambda>c. \<not> list_ex (\<lambda>p. touches p c) (scan_order w)) (coins w)
    \<and> length (players (physics w)) = length (scan_order w)
    \<and> (\<forall>i < length (scan_order w).
          players (physics w) ! i =
            (scan_order w ! i)\<lparr>score := score (scan_order w ! i) +
               length (filter (\<lambda>c. touches (scan_order w ! i) c \<and>
                                   \<not> list_ex (\<lambda>q. touches q c) (take i (scan_order w)))
                         (coins w))\<rparr>)
    \<and> sum_list (map score (players (physics w))) + length (coins (physics w)) =
        sum_list (map score (scan_order w)) + length (coins w)
    \<and> coins (tick parse stringify now rx ry w) =
        coins (spawn_step now rx ry (tick_physics parse now w))
    \<and> coins (tick_physics parse now w) =
        filter (\<lambda>c. \<not> list_ex (\<lambda>p. touches p c)
                           (scan_order (processInboundQueue parse now w))) (coins w)
    \<and> length (players (tick parse stringify now rx ry w)) =
        length (scan_order (processInboundQueue parse now w))
    \<and> (\<forall>i < length (scan_order (processInboundQueue parse now w)).
          players (tick parse stringify now rx ry w) ! i =
            (scan_order (processInboundQueue parse now w) ! i)
              \<lparr>score := score (scan_order (processInboundQueue parse now w) ! i) +
                 length (filter (\<lambda>c. touches (scan_order (processInboundQueue parse now w) ! i) c \<and>
                     \<not> list_ex (\<lambda>q. touches q c)
                          (take i (scan_order (processInboundQueue parse now w))))
                   (coins w))\<rparr>)
    \<and> sum_list (map score (players (tick parse stringify now rx ry w))) +
        length (coins (tick_physics parse now w)) =
        sum_list (map score (scan_order (processInboundQueue parse now w))) + length (coins w)"
proof -
  let ?w0 = "processInboundQueue parse now w"
  have c0: "coins ?w0 = coins w" by (simp add: processInboundQueue_filter)
  have d0: "distinct (map cid (coins ?w0))" using assms by (simp only: c0)
  have world: "coins (physics v) =
           filter (\<lambda>c. \<not> list_ex (\<lambda>p. touches p c) (scan_order v)) (coins v)
    \<and> length (players (physics v)) = length (scan_order v)
    \<and> (\<forall>i < length (scan_order v).
          players (physics v) ! i =
            (scan_order v ! i)\<lparr>score := score (scan_order v ! i) +
               length (filter (\<lambda>c. touches (scan_order v ! i) c \<and>
                                   \<not> list_ex (\<lambda>q. touches q c) (take i (scan_order v)))
                         (coins v))\<rparr>)
    \<and> sum_list (map score (players (physics v))) + length (coins (physics v)) =
        sum_list (map score (scan_order v)) + length (coins v)"
    if dv: "distinct (map cid (coins v))" for v
    using collect_coins_rest [OF dv, of "scan_order v"]
      length_collect_players [of "scan_order v" "coins v"]
      collect_coins_nth [OF dv, of _ "scan_order v"]
      collect_coins_total [OF dv, of "scan_order v"]
    by (simp add: physics_scan)
  have tp: "players (tick parse stringify now rx ry w) = players (physics ?w0)"
    by (simp add: tick_players tick_physics_def)
  have tc: "coins (tick parse stringify now rx ry w) =
        coins (spawn_step now rx ry (tick_physics parse now w))"
    by (rule tick_coins_spawn)
  show ?thesis
    using world [OF assms] world [OF d0] tc
    unfolding tp tick_physics_def c0 by blast
qed

theorem coin_claimed_once_witness:
  "distinct (map cid (coins ex_coin_world))
   \<and> map score (players ex_coin_world) = [0, 0]
   \<and> coins (physics ex_coin_world) = [ex_coin 3 400 300]
   \<and> map score (players (tick ex_parse ex_stringify 1000 0 0 ex_coin_world)) = [1, 1]
   \<and> coins (tick ex_parse ex_stringify 1000 0 0 ex_coin_world) = [ex_coin 3 400 300]"
proof -
  note ev = touches_def ex_coin_def ex_player_def PLAYER_R_def COIN_R_def
  have d: "distinct (map cid (coins ex_coin_world))"
    by (simp add: ex_coin_world_def ex_coin_def)
  have q: "processInboundQueue ex_parse 1000 ex_coin_world = ex_coin_world"
    by (simp add: drain_empty ex_coin_world_def ex_world_def)
  have so: "scan_order ex_coin_world = [ex_player 1 100 100 0, ex_player 2 140 100 0]"
    by (simp add: scan_order_def update_players_def collide_players_def pair_step_def
      collide_pair_def ex_coin_world_def move_player_def advance_player_def clamp_player_def
      direction_def ex_player_def ex_input_def PLAYER_R_def MAP_W_def MAP_H_def sqrt_1600)
  have cs: "coins ex_coin_world = [ex_coin 1 120 100, ex_coin 2 160 100, ex_coin 3 400 300]"
    by (simp add: ex_coin_world_def)
  have ls: "lastSpawn (tick_physics ex_parse 1000 ex_coin_world) = 0"
    by (simp add: tick_physics_frame ex_coin_world_def ex_world_def)
  from coin_claimed_once [OF d, of ex_parse ex_stringify 1000 0 0]
  have r: "coins (physics ex_coin_world) =
      filter (\<lambda>c. \<not> list_ex (\<lambda>p. touches p c) (scan_order ex_coin_world)) (coins ex_coin_world)"
    and tc: "coins (tick ex_parse ex_stringify 1000 0 0 ex_coin_world) =
        coins (spawn_step 1000 0 0 (tick_physics ex_parse 1000 ex_coin_world))"
    and tk: "coins (tick_physics ex_parse 1000 ex_coin_world) =
        filter (\<lambda>c. \<not> list_ex (\<lambda>p. touches p c)
                    (scan_order (processInboundQueue ex_parse 1000 ex_coin_world)))
          (coins ex_coin_world)"
    and len: "length (players (tick ex_parse ex_stringify 1000 0 0 ex_coin_world)) =
        length (scan_order (processInboundQueue ex_parse 1000 ex_coin_world))"
    and n: "\<forall>i < length (scan_order (processInboundQueue ex_parse 1000 ex_coin_world)).
          players (tick ex_parse ex_stringify 1000 0 0 ex_coin_world) ! i =
            (scan_order (processInboundQueue ex_parse 1000 ex_coin_world) ! i)
              \<lparr>score := score (scan_order (processInboundQueue ex_parse 1000 ex_coin_world) ! i) +
                 length (filter (\<lambda>c. touches (scan_order (processInboundQueue ex_parse 1000 ex_coin_world) ! i) c \<and>
                     \<not> list_ex (\<lambda>q. touches q c)
                          (take i (scan_order (processInboundQueue ex_parse 1000 ex_coin_world))))
                   (coins ex_coin_world))\<rparr>"
    by blast+
  have r': "coins (physics ex_coin_world) = [ex_coin 3 400 300]"
    unfolding r so cs by (simp add: ev)
  have tk': "coins (tick_physics ex_parse 1000 ex_coin_world) = [ex_coin 3 400 300]"
    unfolding tk q so cs by (simp add: ev)
  have tc': "coins (tick ex_parse ex_stringify 1000 0 0 ex_coin_world) = [ex_coin 3 400 300]"
    unfolding tc by (simp add: spawn_step_coins ls tk' COIN_SPAWN_INTERVAL_def)
  let ?ps = "players (tick ex_parse ex_stringify 1000 0 0 ex_coin_world)"
  have "?ps ! 0 = (ex_player 1 100 100 0)\<lparr>score := 1\<rparr>"
    using n [unfolded q so cs, rule_format, of 0] by (simp add: ev)
  moreover have "?ps ! 1 = (ex_player 2 140 100 0)\<lparr>score := 1\<rparr>"
    using n [unfolded q so cs, rule_format, of 1] by (simp add: ev)
  moreover have "length ?ps = 2" using len unfolding q so by simp
  ultimately have sc: "map score ?ps = [1, 1]"
    by (cases ?ps) (auto simp: length_Suc_conv)
  show ?thesis
    unfolding r' tc' sc using d by (simp add: ex_coin_world_def ex_player_def)
qed

subsection \<open>The coin dictionary stays ordered\<close>

lemma set_put_coin: "set (put_coin c cs) \<subseteq> insert c (set cs)"
  by (induction cs) auto

lemma coins_ok_put_coin: "coins_ok cs \<Longrightarrow> coins_ok (put_coin c cs)"
proof (induction cs)
  case Nil
  show ?case by (simp add: coins_ok_def)
next
  case (Cons d ds)
  then have ds: "coins_ok (put_coin c ds)" and above: "\<forall>e \<in> set ds. cid d < cid e"
    by (simp_all add: coins_ok_def)
  show ?case
  proof (cases "cid c < cid d")
    case True
    with Cons.prems show ?thesis by (auto simp: coins_ok_def)
  next
    case False
    show ?thesis
    proof (cases "cid c = cid d")
      case True
      with Cons.prems show ?thesis by (auto simp: coins_ok_def)
    next
      case ne: False
      with False have "cid d < cid c" by simp
      with above set_put_coin [of c ds] have "\<forall>e \<in> set (put_coin c ds). cid d < cid e"
        by auto
      with ds False ne show ?thesis by (simp add: coins_ok_def)
    qed
  qed
qed

lemma coins_ok_distinct: "coins_ok cs \<Longrightarrow> distinct (map cid cs)"
  by (induction cs) (auto simp: coins_ok_def)

lemma coins_ok_filter: "coins_ok cs \<Longrightarrow> coins_ok (filter P cs)"
  by (simp add: coins_ok_def sorted_wrt_filter)

lemma coins_ok_physics: "coins_ok (coins w) \<Longrightarrow> coins_ok (coins (physics w))"
proof -
  assume ok: "coins_ok (coins w)"
  have "coins (physics w) = snd (collect_coins (collide_players (update_players (players w))) (coins w))"
    by (simp add: physics_def case_prod_unfold Let_def)
  then show ?thesis
    using ok by (simp add: collect_coins_rest [OF coins_ok_distinct [OF ok]] coins_ok_filter)
qed

lemma coins_ok_tick:
  "coins_ok (coins w) \<Longrightarrow> coins_ok (coins (tick parse stringify now rx ry w))"
proof -
  assume ok: "coins_ok (coins w)"
  have "coins (processInboundQueue parse now w) = coins w"
    by (simp add: processInboundQueue_filter)
  with ok have "coins_ok (coins (physics (processInboundQueue parse now w)))"
    by (simp add: coins_ok_physics)
  then show ?thesis
    by (simp add: tick_coins spawn_step_coins coins_ok_put_coin)
qed

section \<open>The outbound broadcaster\<close>

lemma timer_fire_timers:
  "timer_fire tm (w\<lparr>timers := a\<rparr>) = (timer_fire tm w)\<lparr>timers := a\<rparr>"
  by (simp add: timer_fire_def)

lemma fold_timer_fire_timers:
  "fold timer_fire tms (w\<lparr>timers := a\<rparr>) = (fold timer_fire tms w)\<lparr>timers := a\<rparr>"
  by (induction tms arbitrary: w) (simp_all add: timer_fire_timers)

lemma timers_fold_timer_fire: "timers (fold timer_fire tms w) = timers w"
  by (induction tms arbitrary: w) (simp_all add: timer_fire_def)

lemma run_timers_later:
  assumes "\<forall>tm \<in> set new. now < fireAt tm"
  shows "run_timers now (w\<lparr>timers := timers w @ new\<rparr>) =
         (run_timers now w)\<lparr>timers := timers (run_timers now w) @ new\<rparr>"
proof -
  have f1: "filter (\<lambda>tm. fireAt tm \<le> now) new = []"
    using assms by (auto simp: filter_empty_conv)
  have f2: "filter (\<lambda>tm. \<not> fireAt tm \<le> now) new = new"
    using assms by (auto intro!: filter_True)
  show ?thesis
    by (simp add: run_timers_def f1 f2 fold_timer_fire_timers timers_fold_timer_fire)
qed

lemma broadcastState_new_timers:
  "broadcastState stringify T w = w\<lparr>timers := timers w @ new_timers stringify T w\<rparr>"
  by (simp add: broadcastState_timers new_timers_def make_snapshot_def)

text \<open>Claim C9. A broadcast at clock reading \<open>T\<close> changes nothing but the pending
  timers: it adds one per client in \<open>clients\<close>, all with the same payload, the serialised
  snapshot of \<open>T\<close>, the players and the coins, and all due at \<open>T + SIM_LATENCY_MS\<close>. A timer
  phase before that reading leaves the new timers pending and does what it does without
  the broadcast. When a timer fires, a socket that is not open receives nothing and the
  world is unchanged; an open socket is handed the payload.\<close>

theorem broadcast_after_delay:
  "broadcastState stringify T w = w\<lparr>timers := timers w @ new_timers stringify T w\<rparr>
   \<and> (now < T + SIM_LATENCY_MS \<longrightarrow>
        run_timers now (broadcastState stringify T w) =
          (run_timers now w)\<lparr>timers := timers (run_timers now w) @ new_timers stringify T w\<rparr>)
   \<and> (readyState (sockets w' (t_ws tm)) \<noteq> OPEN \<longrightarrow> timer_fire tm w' = w')
   \<and> (readyState (sockets w' (t_ws tm)) = OPEN \<longrightarrow>
        timer_fire tm w' =
          w'\<lparr>sockets := (sockets w')(t_ws tm :=
               (sockets w' (t_ws tm))\<lparr>sent := sent (sockets w' (t_ws tm)) @ [t_msg tm]\<rparr>)\<rparr>)"
proof (intro conjI impI)
  show b: "broadcastState stringify T w = w\<lparr>timers := timers w @ new_timers stringify T w\<rparr>"
    by (rule broadcastState_new_timers)
  assume "now < T + SIM_LATENCY_MS"
  then have "\<forall>tm \<in> set (new_timers stringify T w). now < fireAt tm"
    by (simp add: new_timers_def)
  from run_timers_later [OF this] show "run_timers now (broadcastState stringify T w) =
          (run_timers now w)\<lparr>timers := timers (run_timers now w) @ new_timers stringify T w\<rparr>"
    by (simp only: b)
next
  assume "readyState (sockets w' (t_ws tm)) \<noteq> OPEN"
  then show "timer_fire tm w' = w'" by (simp add: timer_fire_def)
next
  assume "readyState (sockets w' (t_ws tm)) = OPEN"
  then show "timer_fire tm w' =
          w'\<lparr>sockets := (sockets w')(t_ws tm :=
               (sockets w' (t_ws tm))\<lparr>sent := sent (sockets w' (t_ws tm)) @ [t_msg tm]\<rparr>)\<rparr>"
    by (simp add: timer_fire_def ws_send_def)
qed

theorem broadcast_after_delay_witness:
  "(1199::int) < 1000 + SIM_LATENCY_MS
   \<and> timers (broadcastState ex_stringify 1000 ex_net_world) = [ex_timer 1, ex_timer 2]
   \<and> run_timers 1199 (broadcastState ex_stringify 1000 ex_net_world) =
       broadcastState ex_stringify 1000 ex_net_world
   \<and> readyState (sockets ex_net_world (t_ws (ex_timer 2))) \<noteq> OPEN
   \<and> timer_fire (ex_timer 2) ex_net_world = ex_net_world
   \<and> readyState (sockets ex_net_world (t_ws (ex_timer 1))) = OPEN
   \<and> sent (sockets (timer_fire (ex_timer 1) ex_net_world) 1) = [''snapshot'']
   \<and> sent (sockets (run_timers 1200 (broadcastState ex_stringify 1000 ex_net_world)) 1) =
       [''snapshot'']
   \<and> sent (sockets (run_timers 1200 (broadcastState ex_stringify 1000 ex_net_world)) 2) = []"
proof -
  have early: "(1199::int) < 1000 + SIM_LATENCY_MS" by (simp add: SIM_LATENCY_MS_def)
  have closed: "readyState (sockets ex_net_world (t_ws (ex_timer 2))) \<noteq> OPEN"
    and opened: "readyState (sockets ex_net_world (t_ws (ex_timer 1))) = OPEN"
    by (simp_all add: ex_net_world_def ex_world_def ex_sockets_def ex_timer_def)
  have nt: "new_timers ex_stringify 1000 ex_net_world = [ex_timer 1, ex_timer 2]"
    by (simp add: new_timers_def ex_net_world_def ex_world_def ex_stringify_def
        ex_timer_def SIM_LATENCY_MS_def)
  have idle: "run_timers t ex_net_world = ex_net_world" for t
    by (simp add: run_timers_def ex_net_world_def ex_world_def)
  have tm0: "timers ex_net_world = []" by (simp add: ex_net_world_def ex_world_def)
  from broadcast_after_delay
    [of ex_stringify 1000 ex_net_world 1199 ex_net_world "ex_timer 2"] early closed
  have b: "broadcastState ex_stringify 1000 ex_net_world =
      ex_net_world\<lparr>timers := timers ex_net_world @ new_timers ex_stringify 1000 ex_net_world\<rparr>"
    and r: "run_timers 1199 (broadcastState ex_stringify 1000 ex_net_world) =
      (run_timers 1199 ex_net_world)\<lparr>timers := timers (run_timers 1199 ex_net_world) @
         new_timers ex_stringify 1000 ex_net_world\<rparr>"
    and c: "timer_fire (ex_timer 2) ex_net_world = ex_net_world"
    by blast+
  from broadcast_after_delay
    [of ex_stringify 1000 ex_net_world 1199 ex_net_world "ex_timer 1"] opened
  have o: "timer_fire (ex_timer 1) ex_net_world =
      ex_net_world\<lparr>sockets := (sockets ex_net_world)(t_ws (ex_timer 1) :=
         (sockets ex_net_world (t_ws (ex_timer 1)))
           \<lparr>sent := sent (sockets ex_net_world (t_ws (ex_timer 1))) @ [t_msg (ex_timer 1)]\<rparr>)\<rparr>"
    by blast
  have b': "broadcastState ex_stringify 1000 ex_net_world =
      ex_net_world\<lparr>timers := [ex_timer 1, ex_timer 2]\<rparr>"
    unfolding b nt tm0 by simp
  have r': "run_timers 1199 (broadcastState ex_stringify 1000 ex_net_world) =
      broadcastState ex_stringify 1000 ex_net_world"
    unfolding r idle nt tm0 by (simp add: b')
  have o': "sent (sockets (timer_fire (ex_timer 1) ex_net_world) 1) = [''snapshot'']"
    unfolding o by (simp add: ex_timer_def ex_net_world_def ex_world_def ex_sockets_def)
  have late: "sent (sockets (run_timers 1200 (ex_net_world\<lparr>timers := [ex_timer 1, ex_timer 2]\<rparr>)) 1) =
       [''snapshot'']"
     "sent (sockets (run_timers 1200 (ex_net_world\<lparr>timers := [ex_timer 1, ex_timer 2]\<rparr>)) 2) = []"
    by (simp_all add: run_timers_def timer_fire_def ws_send_def ex_timer_def ex_net_world_def
        ex_world_def ex_sockets_def)
  have tms: "timers (broadcastState ex_stringify 1000 ex_net_world) = [ex_timer 1, ex_timer 2]"
    unfolding b' by simp
  show ?thesis
    unfolding r' tms unfolding b'
    using early closed c opened o' late by (simp only: simp_thms)
qed

end
